theory Spec2Isabelle
  imports Main "HOL-Library.Word"
begin

section \<open>Data model\<close>

text \<open>
  The binding layer of \<^verbatim>\<open>src/python/common.h\<close> moves data between enoki arrays that
  live on the GPU and flat memory owned by a foreign tensor library.

  \<^item> \<^verbatim>\<open>size_t\<close> is a 64-bit word and \<^verbatim>\<open>uint32_t\<close> a 32-bit word; both wrap around.
  \<^item> A logical array of depth 1 is a \<^verbatim>\<open>CUDAArray<Scalar>\<close>, a dynamically sized sequence of
    scalars; a logical array of depth \<open>k + 1\<close> is an \<^verbatim>\<open>Array<Inner, Size>\<close>, a statically
    sized sequence of arrays of depth \<open>k\<close>.  The scalar type is a type parameter: elements
    are only ever moved, never computed with.
  \<^item> A \<^verbatim>\<open>CUDAArray<Scalar>::map(ptr, size)\<close> is a view of foreign memory that owns nothing.
    It is a store from element offsets (relative to \<^verbatim>\<open>ptr\<close>) to values together with
    the element count given to \<^verbatim>\<open>map\<close>.  Accesses are not checked against that count, so
    the store covers the memory next to the view as well.
\<close>

type_synonym size_t = "64 word"
type_synonym uint32_t = "32 word"

datatype 'a enoki_array = CUDAArray "'a list" | StaticArray "'a enoki_array list"

record 'a mapped_array =
  view_size :: size_t
  view_mem :: "nat \<Rightarrow> 'a"

datatype error =
    index_error
  | reference_cast_error
  | cast_error
  | runtime_error string
  | undefined_behaviour

section \<open>Primitives of the array library\<close>

text \<open>
  Modelled from the spec: the headers \<^verbatim>\<open>enoki/cuda.h\<close> and \<^verbatim>\<open>enoki/array.h\<close> that define
  \<^verbatim>\<open>arange\<close>, \<^verbatim>\<open>fmadd\<close>, \<^verbatim>\<open>gather\<close>, \<^verbatim>\<open>scatter\<close>, \<^verbatim>\<open>coeff\<close>, \<^verbatim>\<open>size\<close> and \<^verbatim>\<open>shape\<close> are
  missing.  The spec calls the index sequence \<open>offset + arange(shape[last]) * stride[last]\<close> an
  affine multiply-add sequence, a gather a read from scattered source indices into a dense
  target, and a scatter a write of a dense source into scattered target indices.  The index
  arrays have element type \<^verbatim>\<open>uint32_t\<close>, so the multiply-add is 32-bit arithmetic.  A scatter
  writes its elements in index order; where two of them go to the same location the later one
  stays.  The spec describes a scatter of as many elements as there are indices; a source of
  another size is outside its description and \<open>None\<close> here.
\<close>

definition arange :: "uint32_t \<Rightarrow> uint32_t list" where
  "arange n = map of_nat [0..<unat n]"

definition fmadd :: "uint32_t list \<Rightarrow> uint32_t \<Rightarrow> uint32_t \<Rightarrow> uint32_t list" where
  "fmadd a b c = map (\<lambda>x. x * b + c) a"

definition gather :: "'a mapped_array \<Rightarrow> uint32_t list \<Rightarrow> 'a list" where
  "gather source index = map (\<lambda>i. view_mem source (unat i)) index"

definition scatter ::
  "'a mapped_array \<Rightarrow> 'a list \<Rightarrow> uint32_t list \<Rightarrow> 'a mapped_array option" where
  "scatter target source index =
     (if length source = length index then
        Some (target\<lparr>view_mem :=
                fold (\<lambda>(i, v) m. m(unat i := v)) (zip index source) (view_mem target)\<rparr>)
      else None)"

text \<open>
  Modelled from the spec: \<^verbatim>\<open>coeff(i)\<close> selects the \<open>i\<close>-th component of the current array
  level.  A component past the static size does not exist; reaching for it is undefined
  behaviour in the source and \<open>None\<close> here.  On a depth-1 array the component is a scalar,
  which \<open>coeff_value\<close> below returns.
\<close>

fun coeff :: "'a enoki_array \<Rightarrow> nat \<Rightarrow> 'a enoki_array option" where
  "coeff (StaticArray xs) i = (if i < length xs then Some (xs ! i) else None)"
| "coeff (CUDAArray xs) i = None"

fun set_coeff :: "'a enoki_array \<Rightarrow> nat \<Rightarrow> 'a enoki_array \<Rightarrow> 'a enoki_array option" where
  "set_coeff (StaticArray xs) i v =
     (if i < length xs then Some (StaticArray (xs[i := v])) else None)"
| "set_coeff (CUDAArray xs) i v = None"

fun array_size :: "'a enoki_array \<Rightarrow> nat" where
  "array_size (CUDAArray xs) = length xs"
| "array_size (StaticArray xs) = length xs"

text \<open>
  Modelled from the spec: \<^verbatim>\<open>enoki::shape\<close> gives the ordered sequence of per-dimension
  extents, dimension 0 being the outermost.  The inner extents are read off the first
  component.
\<close>

fun enoki_shape :: "'a enoki_array \<Rightarrow> size_t list" where
  "enoki_shape (CUDAArray xs) = [of_nat (length xs)]"
| "enoki_shape (StaticArray []) = [0]"
| "enoki_shape (StaticArray (x # xs)) = of_nat (Suc (length xs)) # enoki_shape x"

section \<open>The strided copies\<close>

text \<open>
  \<^verbatim>\<open>copy_array_gather<Index, Dim>\<close> and \<^verbatim>\<open>copy_array_scatter<Index, Dim>\<close>.  \<open>Dim\<close> is the
  length of the two \<^verbatim>\<open>std::array\<close>s.  The loop over \<open>i\<close> carries the running offset and the
  array being written.  Reaching for a component that does not exist is undefined behaviour
  in the source and ends the copy with \<open>None\<close>.  Every caller instantiates the templates
  with \<open>Dim\<close> the depth of the array, so the array handled in dimension \<open>Index\<close> has depth
  \<open>Dim - Index\<close>; on an array of another depth the copy is \<open>None\<close> as well.
\<close>

function copy_array_gather ::
  "nat \<Rightarrow> size_t \<Rightarrow> size_t list \<Rightarrow> size_t list \<Rightarrow> 'a mapped_array \<Rightarrow> 'a enoki_array
     \<Rightarrow> 'a enoki_array option" where
  "copy_array_gather Index offset shape strides source target =
     (if Index + 1 = length shape then
        (case target of
           CUDAArray _ \<Rightarrow>
             Some (CUDAArray (gather source
                     (fmadd (arange (ucast (shape ! Index)))
                            (ucast (strides ! Index)) (ucast offset))))
         | StaticArray _ \<Rightarrow> None)
      else if Index + 1 < length shape then
        map_option snd
          (fold (\<lambda>i st.
                   case st of
                     None \<Rightarrow> None
                   | Some (off, tgt) \<Rightarrow>
                       (case coeff tgt i of
                          None \<Rightarrow> None
                        | Some c \<Rightarrow>
                            (case copy_array_gather (Index + 1) off shape strides source c of
                               None \<Rightarrow> None
                             | Some c' \<Rightarrow>
                                 (case set_coeff tgt i c' of
                                    None \<Rightarrow> None
                                  | Some tgt' \<Rightarrow> Some (off + strides ! Index, tgt')))))
             [0..<unat (shape ! Index)] (Some (offset, target)))
      else None)"
  by pat_completeness auto
termination
  by (relation "measure (\<lambda>(Index, offset, shape, strides, source, target). length shape - Index)")
    auto

function copy_array_scatter ::
  "nat \<Rightarrow> size_t \<Rightarrow> size_t list \<Rightarrow> size_t list \<Rightarrow> 'a enoki_array \<Rightarrow> 'a mapped_array
     \<Rightarrow> 'a mapped_array option" where
  "copy_array_scatter Index offset shape strides source target =
     (if Index + 1 = length shape then
        (case source of
           CUDAArray xs \<Rightarrow>
             scatter target xs
               (fmadd (arange (ucast (shape ! Index)))
                      (ucast (strides ! Index)) (ucast offset))
         | StaticArray _ \<Rightarrow> None)
      else if Index + 1 < length shape then
        map_option snd
          (fold (\<lambda>i st.
                   case st of
                     None \<Rightarrow> None
                   | Some (off, tgt) \<Rightarrow>
                       (case coeff source i of
                          None \<Rightarrow> None
                        | Some c \<Rightarrow>
                            (case copy_array_scatter (Index + 1) off shape strides c tgt of
                               None \<Rightarrow> None
                             | Some tgt' \<Rightarrow> Some (off + strides ! Index, tgt'))))
             [0..<unat (shape ! Index)] (Some (offset, target)))
      else None)"
  by pat_completeness auto
termination
  by (relation "measure (\<lambda>(Index, offset, shape, strides, source, target). length shape - Index)")
    auto

declare copy_array_gather.simps [simp del]
declare copy_array_scatter.simps [simp del]

section \<open>Element access from the host language\<close>

text \<open>
  The \<^verbatim>\<open>__getitem__\<close> lambda of \<^verbatim>\<open>bind\<close>.  Its result type \<^verbatim>\<open>Value\<close> is the scalar type for
  an array of depth 1 and the component array type otherwise.
\<close>

datatype 'a array_value = Scalar 'a | Nested "'a enoki_array"

fun coeff_value :: "'a enoki_array \<Rightarrow> nat \<Rightarrow> 'a array_value option" where
  "coeff_value (CUDAArray xs) i = (if i < length xs then Some (Scalar (xs ! i)) else None)"
| "coeff_value (StaticArray xs) i = (if i < length xs then Some (Nested (xs ! i)) else None)"

definition getitem :: "'a enoki_array \<Rightarrow> nat \<Rightarrow> error + 'a array_value" where
  "getitem a index =
     (if index \<ge> array_size a then Inl index_error
      else case coeff_value a index of
             None \<Rightarrow> Inl undefined_behaviour
           | Some v \<Rightarrow> Inr v)"

section \<open>Scalar types and tensor dtypes\<close>

text \<open>
  A scalar type as far as \<^verbatim>\<open>torch_dtype\<close> and \<^verbatim>\<open>sizeof\<close> can tell: one of the three
  floating-point types, an integral type with its signedness and size in bytes, or any other
  type with its size.  A dtype object of the tensor library is named by its attribute name.
\<close>

datatype scalar_type =
    Half
  | Float
  | Double
  | Integral (is_signed: bool) (int_size: nat)
  | Other (other_size: nat)

fun sizeof :: "scalar_type \<Rightarrow> nat" where
  "sizeof Half = 2"
| "sizeof Float = 4"
| "sizeof Double = 8"
| "sizeof (Integral sg n) = n"
| "sizeof (Other n) = n"

fun is_integral :: "scalar_type \<Rightarrow> bool" where
  "is_integral (Integral sg n) = True"
| "is_integral _ = False"

definition torch_dtype :: "scalar_type \<Rightarrow> error + string" where
  "torch_dtype Scalar_t =
     (let name =
        (if Scalar_t = Half then Some ''float16''
         else if Scalar_t = Float then Some ''float32''
         else if Scalar_t = Double then Some ''float64''
         else if is_integral Scalar_t then
           (if sizeof Scalar_t = 1 then Some (if is_signed Scalar_t then ''int8'' else ''uint8'')
            else if sizeof Scalar_t = 2 then Some ''int16''
            else if sizeof Scalar_t = 4 then Some ''int32''
            else if sizeof Scalar_t = 8 then Some ''int64''
            else None)
         else None)
      in (case name of
            None \<Rightarrow> Inl (runtime_error ''pytorch_dtype(): Unsupported type'')
          | Some n \<Rightarrow> Inr n))"

section \<open>Conversions\<close>

text \<open>
  A tensor of the foreign library, as the accessors \<^verbatim>\<open>__name__\<close> of its type, \<^verbatim>\<open>shape\<close>,
  \<^verbatim>\<open>dtype\<close>, \<^verbatim>\<open>stride()\<close> and \<^verbatim>\<open>data_ptr()\<close> show it.  Strides count elements.  The memory
  is the store that starts at \<^verbatim>\<open>data_ptr()\<close>.
\<close>

record 'a tensor =
  tensor_type_name :: string
  tensor_shape :: "size_t list"
  tensor_dtype :: string
  tensor_stride :: "size_t list"
  tensor_data :: "nat \<Rightarrow> 'a"

text \<open>\<^verbatim>\<open>std::string::find\<close>: the first position where the pattern starts, \<open>None\<close> for \<^verbatim>\<open>npos\<close>.\<close>

fun string_find :: "string \<Rightarrow> string \<Rightarrow> nat option" where
  "string_find [] pat = (if pat = [] then Some 0 else None)"
| "string_find (c # cs) pat =
     (if take (length pat) (c # cs) = pat then Some 0
      else map_option Suc (string_find cs pat))"

text \<open>
  \<^verbatim>\<open>Array result;\<close> for an array type with the given static sizes, outermost first: every
  dynamic array in it is empty.
\<close>

fun default_array :: "nat list \<Rightarrow> 'a enoki_array" where
  "default_array [] = CUDAArray []"
| "default_array (n # ns) = StaticArray (replicate n (default_array ns))"

text \<open>The loop \<^verbatim>\<open>for (size_t i : shape) size *= i;\<close>.\<close>

definition element_count :: "size_t list \<Rightarrow> size_t" where
  "element_count shape = fold (\<lambda>i size. size * i) shape 1"

text \<open>
  \<^verbatim>\<open>torch_to_enoki<Array>\<close>.  The array type is given by its scalar type and its static
  sizes; its depth is one more than the number of static sizes.  \<^verbatim>\<open>py::cast\<close> to a
  \<^verbatim>\<open>std::array<size_t, Depth>\<close> fails on a sequence of another length.
\<close>

definition torch_to_enoki :: "scalar_type \<Rightarrow> nat list \<Rightarrow> 'a tensor \<Rightarrow> error + 'a enoki_array" where
  "torch_to_enoki Scalar_t sizes src =
     (let Depth = Suc (length sizes) in
      if string_find (tensor_type_name src) ''Tensor'' = None then Inl reference_cast_error
      else case torch_dtype Scalar_t of
        Inl e \<Rightarrow> Inl e
      | Inr target_dtype \<Rightarrow>
          if length (tensor_shape src) \<noteq> Depth \<or> tensor_dtype src \<noteq> target_dtype
          then Inl reference_cast_error
          else if length (tensor_stride src) \<noteq> Depth then Inl cast_error
          else
            let shape = rev (tensor_shape src);
                strides = rev (tensor_stride src);
                size = element_count shape;
                source = \<lparr>view_size = size, view_mem = tensor_data src\<rparr>
            in (case copy_array_gather 0 0 shape strides source (default_array sizes) of
                  None \<Rightarrow> Inl undefined_behaviour
                | Some result \<Rightarrow> Inr result))"

text \<open>
  \<^verbatim>\<open>enoki_to_torch<Array>\<close>.  \<open>torch_empty\<close> stands for \<^verbatim>\<open>torch.empty(shape, dtype, device)\<close> of
  the foreign library, which allocates the tensor.  \<^verbatim>\<open>cuda_eval()\<close> only waits for the
  queued work to finish, so \<open>eval\<close> does not change the result.
\<close>

definition enoki_to_torch ::
  "(size_t list \<Rightarrow> string \<Rightarrow> 'a tensor) \<Rightarrow> scalar_type \<Rightarrow> 'a enoki_array \<Rightarrow> bool
     \<Rightarrow> error + 'a tensor" where
  "enoki_to_torch torch_empty Scalar_t src eval =
     (let shape = enoki_shape src;
          Depth = length shape;
          shape_rev = rev shape
      in case torch_dtype Scalar_t of
        Inl e \<Rightarrow> Inl e
      | Inr dtype_obj \<Rightarrow>
          let result = torch_empty shape_rev dtype_obj;
              size = element_count shape
          in if length (tensor_stride result) \<noteq> Depth then Inl cast_error
             else
               let strides = rev (tensor_stride result);
                   target = \<lparr>view_size = size, view_mem = tensor_data result\<rparr>
               in (case copy_array_scatter 0 0 shape strides src target of
                     None \<Rightarrow> Inl undefined_behaviour
                   | Some target' \<Rightarrow> Inr (result\<lparr>tensor_data := view_mem target'\<rparr>)))"

text \<open>
  \<^verbatim>\<open>enoki_to_numpy<Array>\<close>, as far as the data goes.  The result is the \<^verbatim>\<open>py::array\<close>: its
  dtype, shape and strides in bytes, and the content of the managed buffer it views.
  \<open>fresh\<close> is the content of the memory \<^verbatim>\<open>cuda_managed_malloc\<close> hands out.  The objects that
  own the buffer are the subject of the section on managed buffers.
\<close>

record 'a ndarray =
  ndarray_dtype :: scalar_type
  ndarray_shape :: "size_t list"
  ndarray_strides :: "size_t list"
  ndarray_data :: "nat \<Rightarrow> 'a"

definition byte_strides :: "size_t \<Rightarrow> size_t list \<Rightarrow> size_t \<times> size_t \<times> size_t list" where
  "byte_strides elem shape_rev =
     fold (\<lambda>i (size, stride, strides).
             (size * shape_rev ! i, stride * shape_rev ! i, strides[i := stride]))
       (rev [0..<length shape_rev]) (1, elem, replicate (length shape_rev) 0)"

definition enoki_to_numpy ::
  "(nat \<Rightarrow> 'a) \<Rightarrow> scalar_type \<Rightarrow> 'a enoki_array \<Rightarrow> bool \<Rightarrow> error + 'a ndarray" where
  "enoki_to_numpy fresh Scalar_t src eval =
     (let shape = enoki_shape src;
          shape_rev = rev shape;
          (size, stride, strides) = byte_strides (of_nat (sizeof Scalar_t)) shape_rev;
          result = \<lparr>ndarray_dtype = Scalar_t, ndarray_shape = shape_rev,
                    ndarray_strides = strides, ndarray_data = fresh\<rparr>;
          target = \<lparr>view_size = stride, view_mem = fresh\<rparr>;
          strides = rev (map (\<lambda>s. s div of_nat (sizeof Scalar_t)) strides)
      in (case copy_array_scatter 0 0 shape strides src target of
            None \<Rightarrow> Inl undefined_behaviour
          | Some target' \<Rightarrow> Inr (result\<lparr>ndarray_data := view_mem target'\<rparr>)))"

section \<open>Managed buffers and their wrappers\<close>

text \<open>
  Modelled from the spec: the device allocator (\<^verbatim>\<open>cuda_managed_malloc\<close>, \<^verbatim>\<open>cuda_free\<close>) and
  the objects of the host language (\<^verbatim>\<open>py::cast\<close> with \<^verbatim>\<open>take_ownership\<close>, \<^verbatim>\<open>py::array\<close> with a
  base object, reference counts) are missing.  The spec describes a managed buffer as a block
  of host-visible device memory whose lifetime is owned by the wrapper object that holds it,
  released when the last reference to that wrapper is dropped; the ownership passes to the
  wrapper once per allocation, and the host language tracks the lifetime of the wrapper.

  \<^item> A block is named by the number of the allocation it came from; \<open>frees\<close> counts the
    calls of \<^verbatim>\<open>cuda_free\<close> on it.
  \<^item> \<open>buffers\<close> are the live wrapper objects of a \<^verbatim>\<open>CUDAManagedBuffer\<close>, each with its
    reference count and the pointer of the buffer; \<open>arrays\<close> are the live numeric arrays, each
    with its reference count, its data pointer and its base object.
  \<^item> An object whose last reference is dropped is destroyed: a wrapper deletes its buffer,
    which runs the destructor; an array drops its reference to its base.
  \<^item> \<open>array_refs\<close> and \<open>buffer_refs\<close> count the references that the host program holds.
\<close>

record runtime =
  allocated :: nat
  frees :: "nat \<Rightarrow> nat"
  buffers :: "nat \<rightharpoonup> nat \<times> nat"
  arrays :: "nat \<rightharpoonup> nat \<times> nat \<times> nat"
  next_buffer :: nat
  next_array :: nat
  array_refs :: "nat \<Rightarrow> nat"
  buffer_refs :: "nat \<Rightarrow> nat"

definition cuda_managed_malloc :: "nat \<Rightarrow> runtime \<Rightarrow> nat \<times> runtime" where
  "cuda_managed_malloc nbytes r = (allocated r, r\<lparr>allocated := Suc (allocated r)\<rparr>)"

definition cuda_free :: "nat \<Rightarrow> runtime \<Rightarrow> runtime" where
  "cuda_free ptr r = r\<lparr>frees := (frees r)(ptr := Suc (frees r ptr))\<rparr>"

text \<open>The constructor and the destructor of \<^verbatim>\<open>struct CUDAManagedBuffer\<close>.\<close>

definition CUDAManagedBuffer :: "nat \<Rightarrow> runtime \<Rightarrow> nat \<times> runtime" where
  "CUDAManagedBuffer nbytes r = cuda_managed_malloc nbytes r"

definition CUDAManagedBuffer_destructor :: "nat \<Rightarrow> runtime \<Rightarrow> runtime" where
  "CUDAManagedBuffer_destructor ptr r = cuda_free ptr r"

definition cast_take_ownership :: "nat \<Rightarrow> runtime \<Rightarrow> nat \<times> runtime" where
  "cast_take_ownership ptr r =
     (next_buffer r,
      r\<lparr>buffers := (buffers r)(next_buffer r \<mapsto> (1, ptr)), next_buffer := Suc (next_buffer r)\<rparr>)"

definition incref_buffer :: "nat \<Rightarrow> runtime \<Rightarrow> runtime" where
  "incref_buffer b r =
     (case buffers r b of
        None \<Rightarrow> r
      | Some (n, ptr) \<Rightarrow> r\<lparr>buffers := (buffers r)(b \<mapsto> (Suc n, ptr))\<rparr>)"

definition decref_buffer :: "nat \<Rightarrow> runtime \<Rightarrow> runtime" where
  "decref_buffer b r =
     (case buffers r b of
        None \<Rightarrow> r
      | Some (n, ptr) \<Rightarrow>
          if n \<le> 1 then CUDAManagedBuffer_destructor ptr (r\<lparr>buffers := (buffers r)(b := None)\<rparr>)
          else r\<lparr>buffers := (buffers r)(b \<mapsto> (n - 1, ptr))\<rparr>)"

definition py_array :: "nat \<Rightarrow> nat \<Rightarrow> runtime \<Rightarrow> nat \<times> runtime" where
  "py_array ptr base r =
     (let r' = incref_buffer base r
      in (next_array r', r'\<lparr>arrays := (arrays r')(next_array r' \<mapsto> (1, ptr, base)),
                             next_array := Suc (next_array r')\<rparr>))"

definition incref_array :: "nat \<Rightarrow> runtime \<Rightarrow> runtime" where
  "incref_array a r =
     (case arrays r a of
        None \<Rightarrow> r
      | Some (n, ptr, base) \<Rightarrow> r\<lparr>arrays := (arrays r)(a \<mapsto> (Suc n, ptr, base))\<rparr>)"

definition decref_array :: "nat \<Rightarrow> runtime \<Rightarrow> runtime" where
  "decref_array a r =
     (case arrays r a of
        None \<Rightarrow> r
      | Some (n, ptr, base) \<Rightarrow>
          if n \<le> 1 then decref_buffer base (r\<lparr>arrays := (arrays r)(a := None)\<rparr>)
          else r\<lparr>arrays := (arrays r)(a \<mapsto> (n - 1, ptr, base))\<rparr>)"

text \<open>
  What \<^verbatim>\<open>enoki_to_numpy\<close> does with the buffer: it allocates it with \<^verbatim>\<open>new\<close>, hands it to a
  wrapper with \<^verbatim>\<open>take_ownership\<close>, builds the result on the buffer's memory with the wrapper as
  its base, and returns the result; the handle \<^verbatim>\<open>buf_py\<close> goes out of scope on return.
\<close>

definition enoki_to_numpy_buffer :: "nat \<Rightarrow> runtime \<Rightarrow> nat \<times> runtime" where
  "enoki_to_numpy_buffer stride r =
     (let (buf, r) = CUDAManagedBuffer stride r;
          (buf_py, r) = cast_take_ownership buf r;
          (result, r) = py_array buf buf_py r;
          r = decref_buffer buf_py r
      in (result, r))"

text \<open>
  The host program converts arrays and handles the references it holds: it copies and drops
  references to an array, takes the base of an array it holds, and copies and drops
  references to a wrapper.  It never drops a reference it does not hold.
\<close>

datatype host_event =
    Convert nat
  | CopyArray nat
  | DropArray nat
  | TakeBase nat
  | CopyBuffer nat
  | DropBuffer nat

fun host_step :: "host_event \<Rightarrow> runtime \<Rightarrow> runtime" where
  "host_step (Convert stride) r =
     (let (result, r) = enoki_to_numpy_buffer stride r
      in r\<lparr>array_refs := (array_refs r)(result := 1)\<rparr>)"
| "host_step (CopyArray a) r =
     (if array_refs r a = 0 then r
      else (incref_array a r)\<lparr>array_refs := (array_refs r)(a := Suc (array_refs r a))\<rparr>)"
| "host_step (DropArray a) r =
     (if array_refs r a = 0 then r
      else (decref_array a r)\<lparr>array_refs := (array_refs r)(a := array_refs r a - 1)\<rparr>)"
| "host_step (TakeBase a) r =
     (if array_refs r a = 0 then r
      else case arrays r a of
             None \<Rightarrow> r
           | Some (n, ptr, base) \<Rightarrow>
               (incref_buffer base r)
                 \<lparr>buffer_refs := (buffer_refs r)(base := Suc (buffer_refs r base))\<rparr>)"
| "host_step (CopyBuffer b) r =
     (if buffer_refs r b = 0 then r
      else (incref_buffer b r)\<lparr>buffer_refs := (buffer_refs r)(b := Suc (buffer_refs r b))\<rparr>)"
| "host_step (DropBuffer b) r =
     (if buffer_refs r b = 0 then r
      else (decref_buffer b r)\<lparr>buffer_refs := (buffer_refs r)(b := buffer_refs r b - 1)\<rparr>)"

definition initial_runtime :: runtime where
  "initial_runtime =
     \<lparr>allocated = 0, frees = (\<lambda>p. 0), buffers = Map.empty, arrays = Map.empty,
      next_buffer = 0, next_array = 0, array_refs = (\<lambda>a. 0), buffer_refs = (\<lambda>b. 0)\<rparr>"

definition host_run :: "host_event list \<Rightarrow> runtime" where
  "host_run events = fold host_step events initial_runtime"

text \<open>
  The invariant of the runtime.  The \<open>k\<close>-th conversion creates block \<open>k\<close>, wrapper \<open>k\<close> and
  array \<open>k\<close>.  A live wrapper holds an unreleased block and has one reference for every
  reference of the host and one for the array that is based on it; a destroyed wrapper has
  released its block once.
\<close>

definition block_ok :: "runtime \<Rightarrow> nat \<Rightarrow> bool" where
  "block_ok r k \<longleftrightarrow>
     (case buffers r k of
        None \<Rightarrow> buffer_refs r k = 0 \<and> frees r k = (if k < allocated r then 1 else 0)
                 \<and> arrays r k = None
      | Some (n, p) \<Rightarrow> k < allocated r \<and> p = k \<and> frees r k = 0 \<and> 0 < n
                 \<and> n = buffer_refs r k + (if arrays r k = None then 0 else 1))
   \<and> (case arrays r k of
        None \<Rightarrow> array_refs r k = 0
      | Some (n, p, b) \<Rightarrow> p = k \<and> b = k \<and> n = array_refs r k \<and> 0 < n)"

definition consistent :: "runtime \<Rightarrow> bool" where
  "consistent r \<longleftrightarrow>
     next_buffer r = allocated r \<and> next_array r = allocated r \<and> (\<forall>k. block_ok r k)"

section \<open>Shapes, positions and flat offsets\<close>

text \<open>
  The vocabulary of the properties below.  An array has a shape when every level has the
  extent the shape gives for it; \<open>has_static_sizes\<close> asks this of the statically sized levels
  only.  A position is one index per dimension, outermost first, and \<open>positions\<close> lists the
  positions of a shape in the order the copies visit them.  \<open>element\<close> reads the scalar at a
  position, \<open>None\<close> where the array has none.
\<close>

primrec has_shape :: "nat list \<Rightarrow> 'a enoki_array \<Rightarrow> bool" where
  "has_shape [] = (\<lambda>a. False)"
| "has_shape (n # ns) =
     (\<lambda>a. case a of
            CUDAArray xs \<Rightarrow> ns = [] \<and> length xs = n
          | StaticArray xs \<Rightarrow> ns \<noteq> [] \<and> length xs = n \<and> list_all (has_shape ns) xs)"

primrec has_static_sizes :: "nat list \<Rightarrow> 'a enoki_array \<Rightarrow> bool" where
  "has_static_sizes [] = (\<lambda>a. case a of CUDAArray xs \<Rightarrow> True | StaticArray xs \<Rightarrow> False)"
| "has_static_sizes (n # ns) =
     (\<lambda>a. case a of
            CUDAArray xs \<Rightarrow> False
          | StaticArray xs \<Rightarrow> length xs = n \<and> list_all (has_static_sizes ns) xs)"

primrec element :: "nat list \<Rightarrow> 'a enoki_array \<Rightarrow> 'a option" where
  "element [] = (\<lambda>a. None)"
| "element (i # is) =
     (\<lambda>a. case a of
            CUDAArray xs \<Rightarrow> if is = [] \<and> i < length xs then Some (xs ! i) else None
          | StaticArray xs \<Rightarrow> if i < length xs then element is (xs ! i) else None)"

definition positions :: "nat list \<Rightarrow> nat list list" where
  "positions ns = product_lists (map (\<lambda>n. [0..<n]) ns)"

text \<open>
  The flat offset of a position is \<open>offset + \<Sum>\<^sub>d i\<^sub>d * stride\<^sub>d\<close>, as a natural number;
  \<open>flat_index\<close> is what is left of it in 32 bits.
\<close>

definition flat_offset :: "size_t \<Rightarrow> size_t list \<Rightarrow> nat list \<Rightarrow> nat" where
  "flat_offset offset strides is = unat offset + sum_list (map2 (\<lambda>i s. i * unat s) is strides)"

definition flat_index :: "size_t \<Rightarrow> size_t list \<Rightarrow> nat list \<Rightarrow> nat" where
  "flat_index offset strides is = flat_offset offset strides is mod 2 ^ 32"

text \<open>
  The extents that a copy with the given shape covers: the innermost one is cut to 32 bits
  by the cast in front of \<^verbatim>\<open>arange\<close>.
\<close>

definition copied_extents :: "size_t list \<Rightarrow> nat list" where
  "copied_extents shape = map unat (butlast shape) @ [unat (ucast (last shape) :: uint32_t)]"

section \<open>The loops in closed form\<close>

text \<open>
  The loops of both copies add the stride of the current dimension to the running offset
  once per iteration.  In iteration \<open>i\<close> the offset is therefore \<open>offset + i * stride\<close>, in
  \<^verbatim>\<open>size_t\<close> arithmetic, and the running offset can be dropped from the loop state.
\<close>

lemma scatter_loop_offsets:
  "fold (\<lambda>i st.
           case st of
             None \<Rightarrow> None
           | Some (off, tgt) \<Rightarrow>
               (case coeff source i of
                  None \<Rightarrow> None
                | Some c \<Rightarrow>
                    (case rec off c tgt of
                       None \<Rightarrow> None
                     | Some tgt' \<Rightarrow> Some (off + step, tgt'))))
     [0..<n] (Some (offset, target))
   = map_option (Pair (offset + of_nat n * step))
       (fold (\<lambda>i st.
                case st of
                  None \<Rightarrow> None
                | Some tgt \<Rightarrow>
                    (case coeff source i of
                       None \<Rightarrow> None
                     | Some c \<Rightarrow> rec (offset + of_nat i * step) c tgt))
          [0..<n] (Some target))"
proof (induction n)
  case 0
  show ?case by simp
next
  case (Suc n)
  show ?case
    by (simp add: Suc.IH algebra_simps split: option.splits)
qed

lemma gather_loop_offsets:
  "fold (\<lambda>i st.
           case st of
             None \<Rightarrow> None
           | Some (off, tgt) \<Rightarrow>
               (case coeff tgt i of
                  None \<Rightarrow> None
                | Some c \<Rightarrow>
                    (case rec off c of
                       None \<Rightarrow> None
                     | Some c' \<Rightarrow>
                         (case set_coeff tgt i c' of
                            None \<Rightarrow> None
                          | Some tgt' \<Rightarrow> Some (off + step, tgt')))))
     [0..<n] (Some (offset, target))
   = map_option (Pair (offset + of_nat n * step))
       (fold (\<lambda>i st.
                case st of
                  None \<Rightarrow> None
                | Some tgt \<Rightarrow>
                    (case coeff tgt i of
                       None \<Rightarrow> None
                     | Some c \<Rightarrow>
                         (case rec (offset + of_nat i * step) c of
                            None \<Rightarrow> None
                          | Some c' \<Rightarrow> set_coeff tgt i c')))
          [0..<n] (Some target))"
proof (induction n)
  case 0
  show ?case by simp
next
  case (Suc n)
  show ?case
    by (simp add: Suc.IH algebra_simps split: option.splits)
qed

lemma copy_array_scatter_step:
  assumes "Index + 1 < length shape"
  shows "copy_array_scatter Index offset shape strides source target =
     fold (\<lambda>i st.
             case st of
               None \<Rightarrow> None
             | Some tgt \<Rightarrow>
                 (case coeff source i of
                    None \<Rightarrow> None
                  | Some c \<Rightarrow>
                      copy_array_scatter (Index + 1) (offset + of_nat i * strides ! Index)
                        shape strides c tgt))
       [0..<unat (shape ! Index)] (Some target)"
proof -
  have "copy_array_scatter Index offset shape strides source target =
      map_option snd
        (fold (\<lambda>i st.
                 case st of
                   None \<Rightarrow> None
                 | Some (off, tgt) \<Rightarrow>
                     (case coeff source i of
                        None \<Rightarrow> None
                      | Some c \<Rightarrow>
                          (case copy_array_scatter (Index + 1) off shape strides c tgt of
                             None \<Rightarrow> None
                           | Some tgt' \<Rightarrow> Some (off + strides ! Index, tgt'))))
           [0..<unat (shape ! Index)] (Some (offset, target)))"
    using assms by (subst copy_array_scatter.simps) simp
  also have "\<dots> = fold (\<lambda>i st.
             case st of
               None \<Rightarrow> None
             | Some tgt \<Rightarrow>
                 (case coeff source i of
                    None \<Rightarrow> None
                  | Some c \<Rightarrow>
                      copy_array_scatter (Index + 1) (offset + of_nat i * strides ! Index)
                        shape strides c tgt))
       [0..<unat (shape ! Index)] (Some target)"
    by (subst scatter_loop_offsets
          [where rec = "\<lambda>off c tgt. copy_array_scatter (Index + 1) off shape strides c tgt"])
       (simp add: option.map_comp comp_def option.map_ident)
  finally show ?thesis .
qed

lemma copy_array_gather_step:
  assumes "Index + 1 < length shape"
  shows "copy_array_gather Index offset shape strides source target =
     fold (\<lambda>i st.
             case st of
               None \<Rightarrow> None
             | Some tgt \<Rightarrow>
                 (case coeff tgt i of
                    None \<Rightarrow> None
                  | Some c \<Rightarrow>
                      (case copy_array_gather (Index + 1) (offset + of_nat i * strides ! Index)
                              shape strides source c of
                         None \<Rightarrow> None
                       | Some c' \<Rightarrow> set_coeff tgt i c')))
       [0..<unat (shape ! Index)] (Some target)"
proof -
  have "copy_array_gather Index offset shape strides source target =
      map_option snd
        (fold (\<lambda>i st.
                 case st of
                   None \<Rightarrow> None
                 | Some (off, tgt) \<Rightarrow>
                     (case coeff tgt i of
                        None \<Rightarrow> None
                      | Some c \<Rightarrow>
                          (case copy_array_gather (Index + 1) off shape strides source c of
                             None \<Rightarrow> None
                           | Some c' \<Rightarrow>
                               (case set_coeff tgt i c' of
                                  None \<Rightarrow> None
                                | Some tgt' \<Rightarrow> Some (off + strides ! Index, tgt')))))
           [0..<unat (shape ! Index)] (Some (offset, target)))"
    using assms by (subst copy_array_gather.simps) simp
  also have "\<dots> = fold (\<lambda>i st.
             case st of
               None \<Rightarrow> None
             | Some tgt \<Rightarrow>
                 (case coeff tgt i of
                    None \<Rightarrow> None
                  | Some c \<Rightarrow>
                      (case copy_array_gather (Index + 1) (offset + of_nat i * strides ! Index)
                              shape strides source c of
                         None \<Rightarrow> None
                       | Some c' \<Rightarrow> set_coeff tgt i c')))
       [0..<unat (shape ! Index)] (Some target)"
    by (subst gather_loop_offsets
          [where rec = "\<lambda>off c. copy_array_gather (Index + 1) off shape strides source c"])
       (simp add: option.map_comp comp_def option.map_ident)
  finally show ?thesis .
qed

lemma copy_array_scatter_last:
  assumes "Index + 1 = length shape"
  shows "copy_array_scatter Index offset shape strides (CUDAArray xs) target =
     scatter target xs
       (fmadd (arange (ucast (shape ! Index))) (ucast (strides ! Index)) (ucast offset))"
  using assms by (subst copy_array_scatter.simps) simp

lemma copy_array_gather_last:
  assumes "Index + 1 = length shape"
  shows "copy_array_gather Index offset shape strides source (CUDAArray ys) =
     Some (CUDAArray (gather source
             (fmadd (arange (ucast (shape ! Index))) (ucast (strides ! Index)) (ucast offset))))"
  using assms by (subst copy_array_gather.simps) simp

section \<open>Positions, flat indices and stores\<close>

lemma set_positions_Nil: "set (positions []) = {[]}"
  by (simp add: positions_def)

lemma positions_Cons:
  "positions (n # ns) = concat (map (\<lambda>i. map (Cons i) (positions ns)) [0..<n])"
  by (simp add: positions_def)

lemma set_positions_Cons:
  "set (positions (n # ns)) = {i # is | i is. i < n \<and> is \<in> set (positions ns)}"
  by (auto simp: positions_Cons)

lemma in_positions_Cons:
  "p \<in> set (positions (n # ns)) \<longleftrightarrow> (\<exists>i is. p = i # is \<and> i < n \<and> is \<in> set (positions ns))"
  by (auto simp: set_positions_Cons)

lemma positions_single: "positions [n] = map (\<lambda>i. [i]) [0..<n]"
  by (simp add: positions_def)

lemma positions_length: "is \<in> set (positions ns) \<Longrightarrow> length is = length ns"
  by (simp add: positions_def in_set_product_lists_length)

lemma flat_offset_Cons:
  "flat_offset offset (s # ss) (i # is) = unat offset + i * unat s + sum_list (map2 (\<lambda>i s. i * unat s) is ss)"
  by (simp add: flat_offset_def)

text \<open>
  The casts to \<^verbatim>\<open>uint32_t\<close> and the 32-bit multiply-add leave the flat offset modulo \<open>2\<^sup>3\<^sup>2\<close>;
  the 64-bit wrap-around of the running offset disappears behind it.
\<close>

lemma unat_fmadd:
  "unat ((of_nat i :: uint32_t) * ucast (s :: size_t) + ucast (off :: size_t)) =
     (unat off + i * unat s) mod 2 ^ 32"
  apply (simp add: unat_word_ariths unat_of_nat unsigned_ucast_eq take_bit_eq_mod)
  apply (simp add: mod_simps add.commute)
  done

lemma unat_offset_step:
  "unat ((off :: size_t) + of_nat i * s) mod 2 ^ 32 = (unat off + i * unat s) mod 2 ^ 32"
proof -
  have d: "(2::nat) ^ 32 dvd 2 ^ 64" by (simp add: le_imp_power_dvd)
  have "unat (off + of_nat i * s) = (unat off + i * unat s) mod 2 ^ 64"
    by (simp add: unat_word_ariths unat_of_nat mod_simps)
  then show ?thesis
    using mod_mod_cancel [OF d] by simp
qed

lemma flat_index_step:
  "flat_index (offset + of_nat i * s) ss is = flat_index offset (s # ss) (i # is)"
proof -
  let ?r = "sum_list (map2 (\<lambda>i s. i * unat s) is ss)"
  have "(unat (offset + of_nat i * s) + ?r) mod 2 ^ 32
      = (unat (offset + of_nat i * s) mod 2 ^ 32 + ?r) mod 2 ^ 32"
    by (simp add: mod_add_left_eq)
  also have "\<dots> = ((unat offset + i * unat s) mod 2 ^ 32 + ?r) mod 2 ^ 32"
    by (simp only: unat_offset_step)
  also have "\<dots> = (unat offset + i * unat s + ?r) mod 2 ^ 32"
    by (simp add: mod_add_left_eq)
  finally show ?thesis
    by (simp add: flat_index_def flat_offset_def add.assoc)
qed

lemma flat_index_single:
  "flat_index offset [s] [i] = (unat offset + i * unat s) mod 2 ^ 32"
  by (simp add: flat_index_def flat_offset_def)

lemma unat_ucast32: "unat (ucast (n :: size_t) :: uint32_t) = unat n mod 2 ^ 32"
  by (simp add: unsigned_ucast_eq take_bit_eq_mod)

lemma index_list:
  "map unat (fmadd (arange (ucast (n :: size_t))) (ucast (s :: size_t)) (ucast (offset :: size_t)))
     = map (\<lambda>i. flat_index offset [s] [i]) [0..<unat n mod 2 ^ 32]"
  by (simp add: fmadd_def arange_def unat_fmadd flat_index_single unat_ucast32 comp_def)

lemma flat_offset_rev:
  assumes "length is = length ss"
  shows "flat_offset offset (rev ss) is = flat_offset offset ss (rev is)"
proof -
  have "zip (rev is) ss = rev (zip is (rev ss))"
    using assms by (simp add: zip_rev [symmetric])
  then have "sum_list (map2 (\<lambda>i s. i * unat s) (rev is) ss)
      = sum_list (rev (map2 (\<lambda>i s. i * unat s) is (rev ss)))"
    by (simp add: rev_map)
  then show ?thesis
    by (simp add: flat_offset_def sum_list_rev)
qed

lemma flat_index_rev:
  "length is = length ss \<Longrightarrow> flat_index offset (rev ss) is = flat_index offset ss (rev is)"
  by (simp add: flat_index_def flat_offset_rev)

lemma copied_extents_single: "copied_extents [s] = [unat s mod 2 ^ 32]"
  by (simp add: copied_extents_def unat_ucast32)

lemma copied_extents_Cons: "rest \<noteq> [] \<Longrightarrow> copied_extents (s # rest) = unat s # copied_extents rest"
  by (simp add: copied_extents_def)

lemma copied_extents_not_Nil [simp]: "copied_extents shape \<noteq> []"
  by (simp add: copied_extents_def)

lemma length_copied_extents: "shape \<noteq> [] \<Longrightarrow> length (copied_extents shape) = length shape"
  by (simp add: copied_extents_def)

lemma positions_copied_subset:
  "shape \<noteq> [] \<Longrightarrow> set (positions (copied_extents shape)) \<subseteq> set (positions (map unat shape))"
proof (induction shape)
  case Nil
  then show ?case by simp
next
  case (Cons s rest)
  show ?case
  proof (cases "rest = []")
    case True
    have "unat s mod 2 ^ 32 \<le> unat s" by simp
    then show ?thesis
      by (auto simp: True copied_extents_single positions_single)
  next
    case False
    with Cons.IH have "set (positions (copied_extents rest)) \<subseteq> set (positions (map unat rest))"
      by simp
    then have "p \<in> set (positions (map unat (s # rest)))"
      if "p \<in> set (positions (copied_extents (s # rest)))" for p
      using that by (auto simp: copied_extents_Cons [OF False] in_positions_Cons)
    then show ?thesis by blast
  qed
qed

lemma drop_step: "Index < length xs \<Longrightarrow> drop Index xs = xs ! Index # drop (Suc Index) xs"
  by (simp add: Cons_nth_drop_Suc)

lemma drop_last: "Index + 1 = length xs \<Longrightarrow> drop Index xs = [xs ! Index]"
  by (simp add: drop_step)

lemma step_index_in:
  assumes "i < n" "is \<in> set (positions ns)"
  shows "flat_index (offset + of_nat i * s) ss is
           \<in> flat_index offset (s # ss) ` set (positions (n # ns))"
proof -
  have "i # is \<in> set (positions (n # ns))"
    using assms by (simp add: in_positions_Cons)
  then show ?thesis
    by (metis flat_index_step image_eqI)
qed

text \<open>
  A sequence of writes to a store: untouched keys keep their value, and with distinct keys every
  write is visible afterwards.
\<close>

lemma fold_upd_notin:
  "k \<notin> fst ` set kvs \<Longrightarrow> fold (\<lambda>(k, v) m. m(k := v)) kvs m k = m k"
proof (induction kvs arbitrary: m)
  case Nil
  show ?case by simp
next
  case (Cons kv kvs)
  obtain k' v' where kv: "kv = (k', v')" by (cases kv)
  from Cons.prems kv have ne: "k \<noteq> k'" and notin: "k \<notin> fst ` set kvs" by auto
  have "fold (\<lambda>(k, v) m. m(k := v)) (kv # kvs) m k
      = fold (\<lambda>(k, v) m. m(k := v)) kvs (m(k' := v')) k"
    by (simp only: kv fold_simps o_apply prod.case)
  also have "\<dots> = (m(k' := v')) k"
    using notin by (rule Cons.IH)
  also have "\<dots> = m k"
    using ne by simp
  finally show ?case .
qed

lemma fold_upd_in:
  "distinct (map fst kvs) \<Longrightarrow> (k, v) \<in> set kvs \<Longrightarrow> fold (\<lambda>(k, v) m. m(k := v)) kvs m k = v"
proof (induction kvs arbitrary: m)
  case Nil
  then show ?case by simp
next
  case (Cons kv kvs)
  obtain k' v' where kv: "kv = (k', v')" by (cases kv)
  have unfold: "fold (\<lambda>(k, v) m. m(k := v)) (kv # kvs) m k
      = fold (\<lambda>(k, v) m. m(k := v)) kvs (m(k' := v')) k"
    by (simp only: kv fold_simps o_apply prod.case)
  show ?case
  proof (cases "(k, v) = kv")
    case True
    from Cons.prems(1) have "fst kv \<notin> fst ` set kvs" by simp
    with True have "k \<notin> fst ` set kvs" by (metis fst_conv)
    then have "fold (\<lambda>(k, v) m. m(k := v)) kvs (m(k' := v')) k = (m(k' := v')) k"
      by (rule fold_upd_notin)
    also have "\<dots> = v"
      using True kv by simp
    finally show ?thesis
      by (simp only: unfold)
  next
    case False
    with Cons.prems have "distinct (map fst kvs)" "(k, v) \<in> set kvs" by auto
    then have "fold (\<lambda>(k, v) m. m(k := v)) kvs (m(k' := v')) k = v"
      by (rule Cons.IH)
    then show ?thesis
      by (simp only: unfold)
  qed
qed

lemma scatter_Some:
  "scatter target xs index = Some t \<longleftrightarrow>
     length xs = length index
     \<and> t = target\<lparr>view_mem :=
               fold (\<lambda>(k, v) m. m(k := v)) (zip (map unat index) xs) (view_mem target)\<rparr>"
proof -
  have "zip (map unat index) xs = map (\<lambda>(i, v). (unat i, v)) (zip index xs)"
    by (simp add: zip_map1)
  then have "fold (\<lambda>(k, v) m. m(k := v)) (zip (map unat index) xs) (view_mem target)
      = fold (\<lambda>(i, v) m. m(unat i := v)) (zip index xs) (view_mem target)"
    by (simp add: fold_map comp_def case_prod_unfold)
  then show ?thesis
    by (auto simp: scatter_def)
qed

lemma length_index:
  "length (fmadd (arange (ucast (n :: size_t))) s offset) = unat n mod 2 ^ 32"
  by (simp add: fmadd_def arange_def unat_ucast32)

lemma gather_nth:
  assumes "i < unat (n :: size_t) mod 2 ^ 32"
  shows "gather source (fmadd (arange (ucast n)) (ucast (s :: size_t)) (ucast (offset :: size_t))) ! i
           = view_mem source (flat_index offset [s] [i])"
proof -
  let ?idx = "fmadd (arange (ucast n)) (ucast s) (ucast offset)"
  have "gather source ?idx = map (view_mem source) (map unat ?idx)"
    by (simp add: gather_def)
  also have "\<dots> = map (view_mem source) (map (\<lambda>i. flat_index offset [s] [i]) [0..<unat n mod 2 ^ 32])"
    by (simp only: index_list)
  finally show ?thesis
    using assms by simp
qed

lemma gather_length:
  "length (gather source (fmadd (arange (ucast (n :: size_t))) s offset)) = unat n mod 2 ^ 32"
  by (simp add: gather_def fmadd_def arange_def unat_ucast32)

lemma scatter_last_mem:
  assumes "Index + 1 = length shape"
    and "length xs = unat (shape ! Index) mod 2 ^ 32"
  shows "copy_array_scatter Index offset shape strides (CUDAArray xs) target =
     Some (target\<lparr>view_mem :=
       fold (\<lambda>(k, v) m. m(k := v))
         (zip (map (\<lambda>i. (unat offset + i * unat (strides ! Index)) mod 2 ^ 32)
                 [0..<unat (shape ! Index) mod 2 ^ 32]) xs)
         (view_mem target)\<rparr>)"
proof -
  let ?idx = "fmadd (arange (ucast (shape ! Index))) (ucast (strides ! Index)) (ucast offset)"
  have "scatter target xs ?idx = Some (target\<lparr>view_mem :=
       fold (\<lambda>(k, v) m. m(k := v)) (zip (map unat ?idx) xs) (view_mem target)\<rparr>)"
    using assms(2) by (simp add: scatter_Some length_index)
  then show ?thesis
    using assms(1) by (simp only: copy_array_scatter_last index_list flat_index_single)
qed

lemma gather_last_mem:
  assumes "Index + 1 = length shape"
  shows "copy_array_gather Index offset shape strides source (CUDAArray ys) =
     Some (CUDAArray (map (\<lambda>i. view_mem source ((unat offset + i * unat (strides ! Index)) mod 2 ^ 32))
              [0..<unat (shape ! Index) mod 2 ^ 32]))"
proof -
  let ?idx = "fmadd (arange (ucast (shape ! Index))) (ucast (strides ! Index)) (ucast offset)"
  have "gather source ?idx = map (view_mem source) (map unat ?idx)"
    by (simp add: gather_def)
  also have "\<dots> = map (\<lambda>i. view_mem source ((unat offset + i * unat (strides ! Index)) mod 2 ^ 32))
              [0..<unat (shape ! Index) mod 2 ^ 32]"
    by (simp only: index_list flat_index_single map_map comp_def)
  finally show ?thesis
    using assms by (simp only: copy_array_gather_last)
qed

lemma update_next:
  assumes "length gs = i" "i < length ts"
  shows "(gs @ drop i ts)[i := g] = (gs @ [g]) @ drop (Suc i) ts"
proof -
  have "drop i ts = ts ! i # drop (Suc i) ts"
    using assms(2) by (simp add: drop_step)
  then show ?thesis
    using assms(1) by (simp add: list_update_append)
qed

text \<open>
  Two loop rules for a fold over \<open>[0..<n]\<close> whose state is optional: an invariant of the runs
  that end in \<open>Some\<close>, and an invariant that also shows that the run ends in \<open>Some\<close>.
\<close>

lemma fold_option_inv:
  assumes "fold f [0..<n] (Some s0) = Some s"
    and "\<And>i. f i None = None"
    and "P 0 s0"
    and "\<And>i s s'. i < n \<Longrightarrow> P i s \<Longrightarrow> f i (Some s) = Some s' \<Longrightarrow> P (Suc i) s'"
  shows "P n s"
  using assms(1,4)
proof (induction n arbitrary: s)
  case 0
  with assms(3) show ?case by simp
next
  case (Suc n)
  from Suc.prems(1) have "f n (fold f [0..<n] (Some s0)) = Some s" by simp
  with assms(2) obtain s1 where s1: "fold f [0..<n] (Some s0) = Some s1" and fs: "f n (Some s1) = Some s"
    by (cases "fold f [0..<n] (Some s0)") auto
  have "P n s1"
    using s1 Suc.prems(2) by (intro Suc.IH) auto
  then show ?case
    using Suc.prems(2) [of n s1 s] fs by simp
qed

lemma fold_option_total:
  assumes "P 0 s0"
    and "\<And>i s. i < n \<Longrightarrow> P i s \<Longrightarrow> \<exists>s'. f i (Some s) = Some s' \<and> P (Suc i) s'"
  shows "\<exists>s. fold f [0..<n] (Some s0) = Some s \<and> P n s"
  using assms(2)
proof (induction n)
  case 0
  with assms(1) show ?case by simp
next
  case (Suc n)
  have "\<exists>s. fold f [0..<n] (Some s0) = Some s \<and> P n s"
    using Suc.prems by (intro Suc.IH) auto
  then obtain s1 where s1: "fold f [0..<n] (Some s0) = Some s1" "P n s1" by blast
  from Suc.prems [of n s1] s1 obtain s' where "f n (Some s1) = Some s'" "P (Suc n) s'" by auto
  with s1 show ?case by simp
qed

section \<open>What the copies compute\<close>

text \<open>
  A scatter changes nothing but the store, and in it only the flat indices of the positions it
  visits.
\<close>

lemma scatter_frame:
  assumes "Index < length shape" "length strides = length shape"
    and "copy_array_scatter Index offset shape strides source target = Some target'"
  shows "view_size target' = view_size target \<and>
     (\<forall>k. k \<notin> flat_index offset (drop Index strides)
                  ` set (positions (copied_extents (drop Index shape)))
        \<longrightarrow> view_mem target' k = view_mem target k)"
  using assms
proof (induction d \<equiv> "length shape - Index" arbitrary: Index offset source target target')
  case 0
  then show ?case by simp
next
  case (Suc d)
  let ?A = "flat_index offset (drop Index strides)
              ` set (positions (copied_extents (drop Index shape)))"
  show ?case
  proof (cases "Index + 1 = length shape")
    case True
    from Suc.prems(3) True obtain xs where src: "source = CUDAArray xs"
      by (subst (asm) copy_array_scatter.simps) (cases source, auto)
    let ?idx = "fmadd (arange (ucast (shape ! Index))) (ucast (strides ! Index)) (ucast offset)"
    from Suc.prems(3) True src have "scatter target xs ?idx = Some target'"
      by (simp add: copy_array_scatter_last)
    then have t': "target' = target\<lparr>view_mem :=
        fold (\<lambda>(k, v) m. m(k := v)) (zip (map unat ?idx) xs) (view_mem target)\<rparr>"
      by (simp add: scatter_Some)
    have A: "?A = (\<lambda>i. flat_index offset [strides ! Index] [i])
                     ` {..<unat (shape ! Index) mod 2 ^ 32}"
      using True Suc.prems(2)
      by (simp add: drop_last copied_extents_single positions_single image_image
            lessThan_atLeast0)
    have sub: "set (map unat ?idx) \<subseteq> ?A"
      unfolding A index_list by (simp add: lessThan_atLeast0)
    have "view_mem target' k = view_mem target k" if "k \<notin> ?A" for k
    proof -
      from that sub have "k \<notin> set (map unat ?idx)" by blast
      then have "k \<notin> fst ` set (zip (map unat ?idx) xs)"
        by (metis in_set_zipE fst_conv image_iff prod.collapse)
      then have "fold (\<lambda>(k, v) m. m(k := v)) (zip (map unat ?idx) xs) (view_mem target) k
          = view_mem target k"
        by (rule fold_upd_notin)
      then show ?thesis
        by (simp add: t')
    qed
    then show ?thesis
      by (simp add: t')
  next
    case False
    with Suc.prems(1) have lt: "Index + 1 < length shape" by simp
    let ?f = "\<lambda>i st.
             case st of
               None \<Rightarrow> None
             | Some tgt \<Rightarrow>
                 (case coeff source i of
                    None \<Rightarrow> None
                  | Some c \<Rightarrow>
                      copy_array_scatter (Index + 1) (offset + of_nat i * strides ! Index)
                        shape strides c tgt)"
    let ?P = "\<lambda>(i::nat) t. view_size t = view_size target \<and>
                (\<forall>k. k \<notin> ?A \<longrightarrow> view_mem t k = view_mem target k)"
    have run: "fold ?f [0..<unat (shape ! Index)] (Some target) = Some target'"
      by (rule trans [OF copy_array_scatter_step [OF lt, symmetric] Suc.prems(3)])
    have dS: "drop Index shape = shape ! Index # drop (Suc Index) shape"
      and dT: "drop Index strides = strides ! Index # drop (Suc Index) strides"
      using Suc.prems(1,2) by (simp_all add: drop_step)
    have rest_ne: "drop (Suc Index) shape \<noteq> []"
      using lt by simp
    have ext: "copied_extents (drop Index shape)
        = unat (shape ! Index) # copied_extents (drop (Suc Index) shape)"
      unfolding dS by (rule copied_extents_Cons [OF rest_ne])
    have "?P (unat (shape ! Index)) target'"
    proof (rule fold_option_inv [where f = ?f and P = ?P, OF run])
      show "?f i None = None" for i by simp
      show "?P 0 target" by simp
      show "?P (Suc i) s'"
        if "i < unat (shape ! Index)" "?P i s" "?f i (Some s) = Some s'" for i s s'
      proof -
        from that(3) obtain c where
          rec: "copy_array_scatter (Index + 1) (offset + of_nat i * strides ! Index)
                  shape strides c s = Some s'"
          by (auto split: option.splits)
        have d: "d = length shape - (Index + 1)"
          using Suc.hyps(2) by simp
        have ih: "view_size s' = view_size s \<and>
          (\<forall>k. k \<notin> flat_index (offset + of_nat i * strides ! Index) (drop (Index + 1) strides)
                    ` set (positions (copied_extents (drop (Index + 1) shape)))
             \<longrightarrow> view_mem s' k = view_mem s k)"
          using Suc.hyps(1) [OF d lt Suc.prems(2) rec] .
        have "view_mem s' k = view_mem target k" if k: "k \<notin> ?A" for k
        proof -
          have "k \<notin> flat_index (offset + of_nat i * strides ! Index) (drop (Index + 1) strides)
                    ` set (positions (copied_extents (drop (Index + 1) shape)))"
          proof
            assume "k \<in> flat_index (offset + of_nat i * strides ! Index) (drop (Index + 1) strides)
                    ` set (positions (copied_extents (drop (Index + 1) shape)))"
            then obtain "is" where "is \<in> set (positions (copied_extents (drop (Index + 1) shape)))"
              and "k = flat_index (offset + of_nat i * strides ! Index) (drop (Index + 1) strides) is"
              by blast
            with step_index_in [OF \<open>i < unat (shape ! Index)\<close>, of "is"]
            have "k \<in> ?A"
              by (simp add: ext dT)
            with k show False by contradiction
          qed
          with ih have "view_mem s' k = view_mem s k" by blast
          with that \<open>?P i s\<close> show ?thesis by simp
        qed
        with ih \<open>?P i s\<close> show ?thesis by simp
      qed
    qed
    then show ?thesis by simp
  qed
qed

text \<open>
  A gather into an array of the right static sizes is defined; its result has the copied
  extents and holds at every position the value stored at the flat index of the position.
\<close>

lemma gather_spec:
  assumes "Index < length shape" "length strides = length shape"
    and "has_static_sizes (map unat (butlast (drop Index shape))) target"
  shows "\<exists>g. copy_array_gather Index offset shape strides source target = Some g
     \<and> has_shape (copied_extents (drop Index shape)) g
     \<and> (\<forall>is\<in>set (positions (copied_extents (drop Index shape))).
           element is g = Some (view_mem source (flat_index offset (drop Index strides) is)))"
  using assms
proof (induction d \<equiv> "length shape - Index" arbitrary: Index offset target)
  case 0
  then show ?case by simp
next
  case (Suc d)
  show ?case
  proof (cases "Index + 1 = length shape")
    case True
    then have dS: "drop Index shape = [shape ! Index]"
      and dT: "drop Index strides = [strides ! Index]"
      using Suc.prems(2) by (simp_all add: drop_last)
    from Suc.prems(3) obtain ys where tgt: "target = CUDAArray ys"
      by (cases target) (simp_all add: dS)
    let ?g = "gather source
                (fmadd (arange (ucast (shape ! Index))) (ucast (strides ! Index)) (ucast offset))"
    have "copy_array_gather Index offset shape strides source target = Some (CUDAArray ?g)"
      using True tgt by (simp add: copy_array_gather_last)
    moreover have "has_shape (copied_extents (drop Index shape)) (CUDAArray ?g)"
      by (simp add: dS copied_extents_single gather_length)
    moreover have "element is (CUDAArray ?g)
        = Some (view_mem source (flat_index offset (drop Index strides) is))"
      if "is \<in> set (positions (copied_extents (drop Index shape)))" for "is"
    proof -
      from that obtain i where i: "is = [i]" "i < unat (shape ! Index) mod 2 ^ 32"
        by (auto simp: dS copied_extents_single positions_single)
      then show ?thesis
        by (simp add: dT gather_length gather_nth)
    qed
    ultimately show ?thesis by blast
  next
    case False
    with Suc.prems(1) have lt: "Index + 1 < length shape" by simp
    let ?n = "unat (shape ! Index)"
    let ?step = "strides ! Index"
    let ?rest = "drop (Suc Index) shape"
    let ?Q = "\<lambda>i g. has_shape (copied_extents ?rest) g
                \<and> (\<forall>is\<in>set (positions (copied_extents ?rest)).
                      element is g = Some (view_mem source
                        (flat_index (offset + of_nat i * ?step) (drop (Suc Index) strides) is)))"
    have rest_ne: "?rest \<noteq> []"
      using lt by simp
    have dS: "drop Index shape = shape ! Index # ?rest"
      and dT: "drop Index strides = ?step # drop (Suc Index) strides"
      using Suc.prems(1,2) by (simp_all add: drop_step)
    from Suc.prems(3) rest_ne obtain ts where tgt: "target = StaticArray ts"
      and len: "length ts = ?n"
      and comps: "list_all (has_static_sizes (map unat (butlast ?rest))) ts"
      by (cases target) (simp_all add: dS)
    have d: "d = length shape - (Index + 1)"
      using Suc.hyps(2) by simp
    have ih: "\<exists>g. copy_array_gather (Index + 1) (offset + of_nat i * ?step) shape strides source (ts ! i)
                    = Some g \<and> ?Q i g"
      if "i < ?n" for i
    proof -
      from that comps len have "has_static_sizes (map unat (butlast (drop (Index + 1) shape))) (ts ! i)"
        by (simp add: list_all_length)
      from Suc.hyps(1) [OF d lt Suc.prems(2) this] show ?thesis by simp
    qed
    let ?f = "\<lambda>i st.
             case st of
               None \<Rightarrow> None
             | Some tgt \<Rightarrow>
                 (case coeff tgt i of
                    None \<Rightarrow> None
                  | Some c \<Rightarrow>
                      (case copy_array_gather (Index + 1) (offset + of_nat i * strides ! Index)
                              shape strides source c of
                         None \<Rightarrow> None
                       | Some c' \<Rightarrow> set_coeff tgt i c'))"
    let ?P = "\<lambda>k t. \<exists>gs. t = StaticArray (gs @ drop k ts) \<and> length gs = k
                \<and> (\<forall>i<k. ?Q i (gs ! i))"
    have "\<exists>s. fold ?f [0..<?n] (Some target) = Some s \<and> ?P ?n s"
    proof (rule fold_option_total [where f = ?f and P = ?P])
      show "?P 0 target"
        by (simp add: tgt)
      show "\<exists>s'. ?f i (Some s) = Some s' \<and> ?P (Suc i) s'" if "i < ?n" "?P i s" for i s
      proof -
        from that(2) obtain gs where s: "s = StaticArray (gs @ drop i ts)"
          and lgs: "length gs = i" and Q: "\<forall>j<i. ?Q j (gs ! j)"
          by blast
        from ih [OF that(1)] obtain g where
          g: "copy_array_gather (Index + 1) (offset + of_nat i * ?step) shape strides source (ts ! i)
                = Some g" and Qg: "?Q i g"
          by blast
        have c: "coeff s i = Some (ts ! i)"
          using that(1) len lgs by (simp add: s nth_append)
        have u: "set_coeff s i g = Some (StaticArray ((gs @ [g]) @ drop (Suc i) ts))"
          using that(1) len lgs by (simp add: s update_next)
        have "?f i (Some s) = Some (StaticArray ((gs @ [g]) @ drop (Suc i) ts))"
          using c g u by simp
        moreover have "\<forall>j<Suc i. ?Q j ((gs @ [g]) ! j)"
          using Q Qg lgs by (auto simp: nth_append less_Suc_eq)
        ultimately show ?thesis
          using lgs by (intro exI [of _ "StaticArray ((gs @ [g]) @ drop (Suc i) ts)"] conjI
              exI [of _ "gs @ [g]"]) simp_all
      qed
    qed
    then obtain gs where run: "fold ?f [0..<?n] (Some target) = Some (StaticArray gs)"
      and lgs: "length gs = ?n" and Q: "\<forall>i<?n. ?Q i (gs ! i)"
      using len by auto
    have res: "copy_array_gather Index offset shape strides source target = Some (StaticArray gs)"
      by (rule trans [OF copy_array_gather_step [OF lt] run])
    have ext: "copied_extents (drop Index shape) = ?n # copied_extents ?rest"
      unfolding dS by (rule copied_extents_Cons [OF rest_ne])
    have shp: "has_shape (copied_extents (drop Index shape)) (StaticArray gs)"
      using lgs Q by (simp add: ext list_all_length)
    have el: "element is (StaticArray gs)
        = Some (view_mem source (flat_index offset (drop Index strides) is))"
      if "is \<in> set (positions (copied_extents (drop Index shape)))" for "is"
    proof -
      from that obtain i js where i: "is = i # js" "i < ?n"
        "js \<in> set (positions (copied_extents ?rest))"
        by (auto simp: ext in_positions_Cons)
      with Q have "element js (gs ! i) = Some (view_mem source
          (flat_index (offset + of_nat i * ?step) (drop (Suc Index) strides) js))"
        by blast
      then show ?thesis
        using i lgs by (simp add: dT flat_index_step)
    qed
    from res shp el show ?thesis by blast
  qed
qed

text \<open>
  Arrays of one shape that agree at every position are equal.
\<close>

lemma array_eqI:
  assumes "has_shape ns a" "has_shape ns b"
    and "\<forall>is\<in>set (positions ns). element is a = element is b"
  shows "a = b"
  using assms
proof (induction ns arbitrary: a b)
  case Nil
  then show ?case by simp
next
  case (Cons n ns)
  show ?case
  proof (cases a)
    case a: (CUDAArray xs)
    with Cons.prems(1) have ns: "ns = []" and lx: "length xs = n" by simp_all
    from Cons.prems(2) ns obtain ys where b: "b = CUDAArray ys" and ly: "length ys = n"
      by (cases b) simp_all
    have "xs ! i = ys ! i" if "i < n" for i
    proof -
      from that have "[i] \<in> set (positions (n # ns))"
        by (simp add: ns positions_single)
      with Cons.prems(3) have "element [i] a = element [i] b" by blast
      with that lx ly show ?thesis by (simp add: a b)
    qed
    with lx ly have "xs = ys" by (simp add: nth_equalityI)
    with a b show ?thesis by simp
  next
    case a: (StaticArray xs)
    with Cons.prems(1) have ns: "ns \<noteq> []" and lx: "length xs = n"
      and hx: "list_all (has_shape ns) xs" by simp_all
    from Cons.prems(2) ns obtain ys where b: "b = StaticArray ys" and ly: "length ys = n"
      and hy: "list_all (has_shape ns) ys"
      by (cases b) simp_all
    have "xs ! i = ys ! i" if "i < n" for i
    proof (rule Cons.IH)
      show "has_shape ns (xs ! i)" "has_shape ns (ys ! i)"
        using that hx hy lx ly by (simp_all add: list_all_length)
      show "\<forall>is\<in>set (positions ns). element is (xs ! i) = element is (ys ! i)"
      proof
        fix "is" assume "is \<in> set (positions ns)"
        with that have "i # is \<in> set (positions (n # ns))"
          by (simp add: in_positions_Cons)
        with Cons.prems(3) have "element (i # is) a = element (i # is) b" by blast
        with that lx ly show "element is (xs ! i) = element is (ys ! i)"
          by (simp add: a b)
      qed
    qed
    with lx ly have "xs = ys" by (simp add: nth_equalityI)
    with a b show ?thesis by simp
  qed
qed

text \<open>
  A scatter of an array with the copied extents is defined.  When no two positions share a
  flat index, the store holds afterwards every element at the flat index of its position.
\<close>

lemma scatter_spec:
  assumes "Index < length shape" "length strides = length shape"
    and "has_shape (copied_extents (drop Index shape)) source"
    and "inj_on (flat_index offset (drop Index strides))
           (set (positions (copied_extents (drop Index shape))))"
  shows "\<exists>t'. copy_array_scatter Index offset shape strides source target = Some t'
     \<and> (\<forall>is\<in>set (positions (copied_extents (drop Index shape))).
           element is source = Some (view_mem t' (flat_index offset (drop Index strides) is)))"
  using assms
proof (induction d \<equiv> "length shape - Index" arbitrary: Index offset source target)
  case 0
  then show ?case by simp
next
  case (Suc d)
  show ?case
  proof (cases "Index + 1 = length shape")
    case True
    then have dS: "drop Index shape = [shape ! Index]"
      and dT: "drop Index strides = [strides ! Index]"
      using Suc.prems(2) by (simp_all add: drop_last)
    let ?m = "unat (shape ! Index) mod 2 ^ 32"
    from Suc.prems(3) obtain xs where src: "source = CUDAArray xs" and lx: "length xs = ?m"
      by (cases source) (simp_all add: dS copied_extents_single)
    let ?idx = "fmadd (arange (ucast (shape ! Index))) (ucast (strides ! Index)) (ucast offset)"
    let ?ks = "map (\<lambda>i. flat_index offset [strides ! Index] [i]) [0..<?m]"
    let ?t = "target\<lparr>view_mem :=
        fold (\<lambda>(k, v) m. m(k := v)) (zip (map unat ?idx) xs) (view_mem target)\<rparr>"
    have "scatter target xs ?idx = Some ?t"
      using lx by (simp add: scatter_Some length_index)
    then have res: "copy_array_scatter Index offset shape strides source target = Some ?t"
      using True src by (simp add: copy_array_scatter_last)
    have mem: "view_mem ?t = fold (\<lambda>(k, v) m. m(k := v)) (zip ?ks xs) (view_mem target)"
      by (simp add: index_list)
    have "inj_on (flat_index offset [strides ! Index]) (set (map (\<lambda>i. [i]) [0..<?m]))"
      using Suc.prems(4) by (simp only: dS dT copied_extents_single positions_single)
    then have "inj_on (\<lambda>i. flat_index offset [strides ! Index] [i]) {..<?m}"
      by (auto simp: inj_on_def)
    then have dist: "distinct ?ks"
      by (simp add: distinct_map lessThan_atLeast0)
    have "element is source = Some (view_mem ?t (flat_index offset (drop Index strides) is))"
      if "is \<in> set (positions (copied_extents (drop Index shape)))" for "is"
    proof -
      from that obtain i where i: "is = [i]" "i < ?m"
        by (auto simp: dS copied_extents_single positions_single)
      have "(?ks ! i, xs ! i) \<in> set (zip ?ks xs)"
        using i(2) lx by (auto simp: in_set_zip intro!: exI [of _ i])
      moreover have "distinct (map fst (zip ?ks xs))"
        using dist lx by (simp add: map_fst_zip)
      ultimately have "view_mem ?t (?ks ! i) = xs ! i"
        unfolding mem by (rule fold_upd_in [rotated])
      then show ?thesis
        using i lx by (simp add: src dT)
    qed
    with res show ?thesis by blast
  next
    case False
    with Suc.prems(1) have lt: "Index + 1 < length shape" by simp
    let ?n = "unat (shape ! Index)"
    let ?step = "strides ! Index"
    let ?rest = "drop (Suc Index) shape"
    let ?ss = "drop (Suc Index) strides"
    let ?pos = "set (positions (copied_extents ?rest))"
    have rest_ne: "?rest \<noteq> []"
      using lt by simp
    have dS: "drop Index shape = shape ! Index # ?rest"
      and dT: "drop Index strides = ?step # ?ss"
      using Suc.prems(1,2) by (simp_all add: drop_step)
    have ext: "copied_extents (drop Index shape) = ?n # copied_extents ?rest"
      unfolding dS by (rule copied_extents_Cons [OF rest_ne])
    from Suc.prems(3) obtain xs where src: "source = StaticArray xs"
      and len: "length xs = ?n"
      and comps: "list_all (has_shape (copied_extents ?rest)) xs"
      by (cases source) (simp_all add: ext)
    have inj: "inj_on (flat_index offset (?step # ?ss)) (set (positions (?n # copied_extents ?rest)))"
      using Suc.prems(4) by (simp only: ext dT)
    have sep: "i = j \<and> is = js"
      if "flat_index (offset + of_nat i * ?step) ?ss is = flat_index (offset + of_nat j * ?step) ?ss js"
        "i < ?n" "j < ?n" "is \<in> ?pos" "js \<in> ?pos" for i j "is" js
    proof -
      from that have "flat_index offset (?step # ?ss) (i # is) = flat_index offset (?step # ?ss) (j # js)"
        by (simp only: flat_index_step)
      moreover have "i # is \<in> set (positions (?n # copied_extents ?rest))"
        "j # js \<in> set (positions (?n # copied_extents ?rest))"
        using that by (simp_all add: in_positions_Cons)
      ultimately have "i # is = j # js"
        by (rule inj_onD [OF inj])
      then show ?thesis by simp
    qed
    have d: "d = length shape - (Index + 1)"
      using Suc.hyps(2) by simp
    have ih: "\<exists>t'. copy_array_scatter (Index + 1) (offset + of_nat i * ?step) shape strides (xs ! i) t
                    = Some t'
                \<and> (\<forall>is\<in>?pos. element is (xs ! i)
                      = Some (view_mem t' (flat_index (offset + of_nat i * ?step) ?ss is)))"
      if "i < ?n" for i t
    proof -
      from that comps len have h: "has_shape (copied_extents (drop (Index + 1) shape)) (xs ! i)"
        by (simp add: list_all_length)
      have "inj_on (flat_index (offset + of_nat i * ?step) (drop (Index + 1) strides))
              (set (positions (copied_extents (drop (Index + 1) shape))))"
        using sep [OF _ that that] by (auto simp: inj_on_def)
      from Suc.hyps(1) [OF d lt Suc.prems(2) h this] show ?thesis by simp
    qed
    let ?f = "\<lambda>i st.
             case st of
               None \<Rightarrow> None
             | Some tgt \<Rightarrow>
                 (case coeff source i of
                    None \<Rightarrow> None
                  | Some c \<Rightarrow>
                      copy_array_scatter (Index + 1) (offset + of_nat i * strides ! Index)
                        shape strides c tgt)"
    let ?P = "\<lambda>k t. \<forall>i<k. \<forall>is\<in>?pos. element is (xs ! i)
                 = Some (view_mem t (flat_index (offset + of_nat i * ?step) ?ss is))"
    have "\<exists>s. fold ?f [0..<?n] (Some target) = Some s \<and> ?P ?n s"
    proof (rule fold_option_total [where f = ?f and P = ?P])
      show "?P 0 target" by simp
      show "\<exists>s'. ?f i (Some s) = Some s' \<and> ?P (Suc i) s'" if "i < ?n" "?P i s" for i s
      proof -
        from ih [OF that(1), of s] obtain t' where
          rec: "copy_array_scatter (Index + 1) (offset + of_nat i * ?step) shape strides (xs ! i) s
                  = Some t'"
          and new: "\<forall>is\<in>?pos. element is (xs ! i)
                      = Some (view_mem t' (flat_index (offset + of_nat i * ?step) ?ss is))"
          by blast
        have frame: "\<forall>k. k \<notin> flat_index (offset + of_nat i * ?step) (drop (Index + 1) strides)
                               ` set (positions (copied_extents (drop (Index + 1) shape)))
                      \<longrightarrow> view_mem t' k = view_mem s k"
          using scatter_frame [OF lt Suc.prems(2) rec] by blast
        have c: "coeff source i = Some (xs ! i)"
          using that(1) len by (simp add: src)
        have run: "?f i (Some s) = Some t'"
          using c rec by simp
        have old: "element is (xs ! j)
            = Some (view_mem t' (flat_index (offset + of_nat j * ?step) ?ss is))"
          if "j < i" "is \<in> ?pos" for j "is"
        proof -
          have "flat_index (offset + of_nat j * ?step) ?ss is
                  \<notin> flat_index (offset + of_nat i * ?step) (drop (Index + 1) strides)
                               ` set (positions (copied_extents (drop (Index + 1) shape)))"
          proof
            assume "flat_index (offset + of_nat j * ?step) ?ss is
                  \<in> flat_index (offset + of_nat i * ?step) (drop (Index + 1) strides)
                               ` set (positions (copied_extents (drop (Index + 1) shape)))"
            then obtain js where js: "js \<in> ?pos"
              "flat_index (offset + of_nat j * ?step) ?ss is
                 = flat_index (offset + of_nat i * ?step) ?ss js"
              by auto
            from that(1) \<open>i < ?n\<close> have "j < ?n" by simp
            from sep [OF js(2) this \<open>i < ?n\<close> that(2) js(1)] that(1) show False by simp
          qed
          with frame have "view_mem t' (flat_index (offset + of_nat j * ?step) ?ss is)
              = view_mem s (flat_index (offset + of_nat j * ?step) ?ss is)"
            by blast
          with \<open>?P i s\<close> that show ?thesis by simp
        qed
        have "?P (Suc i) t'"
          using old new by (auto simp: less_Suc_eq)
        with run show ?thesis by blast
      qed
    qed
    then obtain t' where run: "fold ?f [0..<?n] (Some target) = Some t'" and P: "?P ?n t'"
      by blast
    have res: "copy_array_scatter Index offset shape strides source target = Some t'"
      by (rule trans [OF copy_array_scatter_step [OF lt] run])
    have "element is source = Some (view_mem t' (flat_index offset (drop Index strides) is))"
      if "is \<in> set (positions (copied_extents (drop Index shape)))" for "is"
    proof -
      from that obtain i js where i: "is = i # js" "i < ?n" "js \<in> ?pos"
        by (auto simp: ext in_positions_Cons)
      with P have "element js (xs ! i)
          = Some (view_mem t' (flat_index (offset + of_nat i * ?step) ?ss js))"
        by blast
      then show ?thesis
        using i len by (simp add: src dT flat_index_step)
    qed
    with res show ?thesis by blast
  qed
qed

text \<open>
  The step of the recursion over one dimension, component by component.
\<close>

lemma gather_components:
  assumes "Index + 1 < length shape"
    and "unat (shape ! Index) \<le> length ts"
    and "length gs = unat (shape ! Index)"
    and "\<forall>i<unat (shape ! Index).
           copy_array_gather (Index + 1) (offset + of_nat i * strides ! Index) shape strides
             source (ts ! i) = Some (gs ! i)"
  shows "copy_array_gather Index offset shape strides source (StaticArray ts)
           = Some (StaticArray (gs @ drop (unat (shape ! Index)) ts))"
proof -
  let ?n = "unat (shape ! Index)"
  let ?f = "\<lambda>i st.
             case st of
               None \<Rightarrow> None
             | Some tgt \<Rightarrow>
                 (case coeff tgt i of
                    None \<Rightarrow> None
                  | Some c \<Rightarrow>
                      (case copy_array_gather (Index + 1) (offset + of_nat i * strides ! Index)
                              shape strides source c of
                         None \<Rightarrow> None
                       | Some c' \<Rightarrow> set_coeff tgt i c'))"
  let ?P = "\<lambda>k t. t = StaticArray (take k gs @ drop k ts)"
  have "\<exists>s. fold ?f [0..<?n] (Some (StaticArray ts)) = Some s \<and> ?P ?n s"
  proof (rule fold_option_total [where f = ?f and P = ?P])
    show "?P 0 (StaticArray ts)" by simp
    show "\<exists>s'. ?f i (Some s) = Some s' \<and> ?P (Suc i) s'" if "i < ?n" "?P i s" for i s
    proof -
      have lt: "length (take i gs) = i" "i < length ts"
        using that(1) assms(2,3) by simp_all
      have c: "coeff s i = Some (ts ! i)"
        using lt by (simp add: that(2) nth_append)
      have g: "copy_array_gather (Index + 1) (offset + of_nat i * strides ! Index) shape strides
             source (ts ! i) = Some (gs ! i)"
        using assms(4) that(1) by blast
      have "(take i gs @ drop i ts)[i := gs ! i] = (take i gs @ [gs ! i]) @ drop (Suc i) ts"
        using lt by (rule update_next)
      also have "take i gs @ [gs ! i] = take (Suc i) gs"
        using that(1) assms(3) by (simp add: take_Suc_conv_app_nth)
      finally have u: "set_coeff s i (gs ! i) = Some (StaticArray (take (Suc i) gs @ drop (Suc i) ts))"
        using lt by (simp add: that(2))
      show ?thesis
        using c g u by simp
    qed
  qed
  then have "fold ?f [0..<?n] (Some (StaticArray ts))
      = Some (StaticArray (take ?n gs @ drop ?n ts))"
    by blast
  then have "fold ?f [0..<?n] (Some (StaticArray ts)) = Some (StaticArray (gs @ drop ?n ts))"
    using assms(3) by (simp only: take_all [OF eq_imp_le])
  then show ?thesis
    by (rule trans [OF copy_array_gather_step [OF assms(1)]])
qed

lemma scatter_components:
  assumes "Index + 1 < length shape"
    and "unat (shape ! Index) \<le> length xs"
    and "ms 0 = target"
    and "\<forall>i<unat (shape ! Index).
           copy_array_scatter (Index + 1) (offset + of_nat i * strides ! Index) shape strides
             (xs ! i) (ms i) = Some (ms (Suc i))"
  shows "copy_array_scatter Index offset shape strides (StaticArray xs) target
           = Some (ms (unat (shape ! Index)))"
proof -
  let ?n = "unat (shape ! Index)"
  let ?f = "\<lambda>i st.
             case st of
               None \<Rightarrow> None
             | Some tgt \<Rightarrow>
                 (case coeff (StaticArray xs) i of
                    None \<Rightarrow> None
                  | Some c \<Rightarrow>
                      copy_array_scatter (Index + 1) (offset + of_nat i * strides ! Index)
                        shape strides c tgt)"
  let ?P = "\<lambda>k t. t = ms k"
  have "\<exists>s. fold ?f [0..<?n] (Some target) = Some s \<and> ?P ?n s"
  proof (rule fold_option_total [where f = ?f and P = ?P])
    show "?P 0 target" using assms(3) by simp
    show "\<exists>s'. ?f i (Some s) = Some s' \<and> ?P (Suc i) s'" if "i < ?n" "?P i s" for i s
    proof -
      have "i < length xs"
        using that(1) assms(2) by simp
      moreover have "copy_array_scatter (Index + 1) (offset + of_nat i * strides ! Index) shape
          strides (xs ! i) (ms i) = Some (ms (Suc i))"
        using assms(4) that(1) by blast
      ultimately show ?thesis
        using that(2) by simp
    qed
  qed
  then have "fold ?f [0..<?n] (Some target) = Some (ms ?n)"
    by blast
  then show ?thesis
    by (rule trans [OF copy_array_scatter_step [OF assms(1)]])
qed

section \<open>The conversions\<close>

lemma default_array_sizes: "has_static_sizes sizes (default_array sizes)"
  by (induction sizes) (simp_all add: list_all_length)

lemma enoki_shape_not_Nil [simp]: "enoki_shape a \<noteq> []"
  by (cases a rule: enoki_shape.cases) simp_all


lemma torch_to_enoki_success:
  assumes name: "string_find (tensor_type_name src) ''Tensor'' \<noteq> None"
    and dtype: "torch_dtype Scalar_t = Inr (tensor_dtype src)"
    and rank: "length (tensor_shape src) = Suc (length sizes)"
    and strides: "length (tensor_stride src) = length (tensor_shape src)"
    and sizes: "sizes = map unat (butlast (rev (tensor_shape src)))"
  shows "\<exists>a. torch_to_enoki Scalar_t sizes src = Inr a
     \<and> has_shape (copied_extents (rev (tensor_shape src))) a
     \<and> (\<forall>is\<in>set (positions (copied_extents (rev (tensor_shape src)))).
           element is a = Some (tensor_data src (flat_index 0 (tensor_stride src) (rev is))))"
proof -
  let ?shape = "rev (tensor_shape src)"
  let ?strides = "rev (tensor_stride src)"
  let ?source = "\<lparr>view_size = element_count ?shape, view_mem = tensor_data src\<rparr>"
  have lt: "0 < length ?shape" and ls: "length ?strides = length ?shape"
    using rank strides by simp_all
  have ne: "?shape \<noteq> []"
    using lt by auto
  have st: "has_static_sizes (map unat (butlast (drop 0 ?shape))) (default_array sizes)"
    using default_array_sizes [of sizes] by (simp add: sizes)
  from gather_spec [OF lt ls st, of 0 ?source]
  obtain g where g: "copy_array_gather 0 0 ?shape ?strides ?source (default_array sizes) = Some g"
    and gs: "has_shape (copied_extents ?shape) g"
    and ge: "\<forall>is\<in>set (positions (copied_extents ?shape)).
               element is g = Some (tensor_data src (flat_index 0 ?strides is))"
    by auto
  have res: "torch_to_enoki Scalar_t sizes src = Inr g"
    using name dtype rank strides g by (simp add: torch_to_enoki_def Let_def)
  have "element is g = Some (tensor_data src (flat_index 0 (tensor_stride src) (rev is)))"
    if "is \<in> set (positions (copied_extents ?shape))" for "is"
  proof -
    from that have "length is = length (tensor_stride src)"
      using positions_length [OF that] length_copied_extents [OF ne] strides by simp
    then have "flat_index 0 ?strides is = flat_index 0 (tensor_stride src) (rev is)"
      by (rule flat_index_rev)
    with ge that show ?thesis by simp
  qed
  with res gs show ?thesis by blast
qed

lemma enoki_to_torch_success:
  assumes dtype: "torch_dtype Scalar_t = Inr dt"
    and alloc: "torch_empty (rev (enoki_shape a)) dt = T"
    and strides: "length (tensor_stride T) = length (enoki_shape a)"
    and shape: "has_shape (copied_extents (enoki_shape a)) a"
    and dist: "distinct (map (flat_index 0 (rev (tensor_stride T)))
                 (positions (copied_extents (enoki_shape a))))"
  shows "\<exists>m. enoki_to_torch torch_empty Scalar_t a eval = Inr (T\<lparr>tensor_data := m\<rparr>)
     \<and> (\<forall>is\<in>set (positions (copied_extents (enoki_shape a))).
           element is a = Some (m (flat_index 0 (tensor_stride T) (rev is))))"
proof -
  let ?shape = "enoki_shape a"
  let ?strides = "rev (tensor_stride T)"
  let ?target = "\<lparr>view_size = element_count ?shape, view_mem = tensor_data T\<rparr>"
  have lt: "0 < length ?shape" and ls: "length ?strides = length ?shape"
    using strides by simp_all
  have h: "has_shape (copied_extents (drop 0 ?shape)) a"
    using shape by simp
  have inj: "inj_on (flat_index 0 (drop 0 ?strides)) (set (positions (copied_extents (drop 0 ?shape))))"
    using dist by (simp add: distinct_map)
  from scatter_spec [OF lt ls h inj, of ?target]
  obtain t' where s: "copy_array_scatter 0 0 ?shape ?strides a ?target = Some t'"
    and se: "\<forall>is\<in>set (positions (copied_extents ?shape)).
               element is a = Some (view_mem t' (flat_index 0 ?strides is))"
    by auto
  have res: "enoki_to_torch torch_empty Scalar_t a eval = Inr (T\<lparr>tensor_data := view_mem t'\<rparr>)"
    using dtype alloc strides s by (simp add: enoki_to_torch_def Let_def)
  have "element is a = Some (view_mem t' (flat_index 0 (tensor_stride T) (rev is)))"
    if "is \<in> set (positions (copied_extents ?shape))" for "is"
  proof -
    from that have "length is = length (tensor_stride T)"
      using positions_length [OF that] length_copied_extents [of ?shape] strides by simp
    then have "flat_index 0 ?strides is = flat_index 0 (tensor_stride T) (rev is)"
      by (rule flat_index_rev)
    with se that show ?thesis by simp
  qed
  with res show ?thesis by blast
qed


section \<open>The runtime of the managed buffers\<close>

text \<open>
  The conversions the host program asks for and the references it copies and drops keep the
  runtime consistent.
\<close>

lemmas runtime_defs =
  enoki_to_numpy_buffer_def CUDAManagedBuffer_def cuda_managed_malloc_def
  cast_take_ownership_def py_array_def incref_buffer_def decref_buffer_def Let_def
  incref_array_def decref_array_def CUDAManagedBuffer_destructor_def cuda_free_def

lemma consistent_initial: "consistent initial_runtime"
  by (simp add: consistent_def block_ok_def initial_runtime_def)

lemma block_ok_Convert:
  assumes "next_buffer r = allocated r" "next_array r = allocated r"
    and "block_ok r k" and "block_ok r (allocated r)"
  shows "block_ok (host_step (Convert nbytes) r) k"
  using assms
  by (auto simp: block_ok_def runtime_defs split: option.splits prod.splits if_splits)

lemma block_ok_CopyArray:
  assumes "block_ok r k" and "block_ok r a"
  shows "block_ok (host_step (CopyArray a) r) k"
  using assms
  by (auto simp: block_ok_def runtime_defs split: option.splits prod.splits if_splits)

lemma block_ok_DropArray:
  assumes "block_ok r k" and "block_ok r a"
  shows "block_ok (host_step (DropArray a) r) k"
proof (cases "array_refs r a = 0")
  case True
  with assms(1) show ?thesis by simp
next
  case False
  with assms(2) obtain n m where arr: "arrays r a = Some (n, a, a)" "n = array_refs r a"
    and buf: "buffers r a = Some (m, a)" "m = Suc (buffer_refs r a)" "frees r a = 0"
      "a < allocated r"
    by (auto simp: block_ok_def split: option.splits)
  show ?thesis
  proof (cases "k = a")
    case True
    with False arr buf show ?thesis
      by (auto simp: block_ok_def runtime_defs)
  next
    case ne: False
    with False arr buf assms(1) show ?thesis
      by (auto simp: block_ok_def runtime_defs split: option.splits)
  qed
qed

lemma block_ok_TakeBase:
  assumes "block_ok r k" and "block_ok r a"
  shows "block_ok (host_step (TakeBase a) r) k"
  using assms
  by (auto simp: block_ok_def runtime_defs split: option.splits prod.splits if_splits)

lemma block_ok_CopyBuffer:
  assumes "block_ok r k" and "block_ok r b"
  shows "block_ok (host_step (CopyBuffer b) r) k"
  using assms
  by (auto simp: block_ok_def runtime_defs split: option.splits prod.splits if_splits)

lemma block_ok_DropBuffer:
  assumes "block_ok r k" and "block_ok r b"
  shows "block_ok (host_step (DropBuffer b) r) k"
proof (cases "buffer_refs r b = 0")
  case True
  with assms(1) show ?thesis by simp
next
  case False
  with assms(2) obtain m where buf: "buffers r b = Some (m, b)"
    "m = buffer_refs r b + (if arrays r b = None then 0 else 1)" "frees r b = 0"
    "b < allocated r"
    by (auto simp: block_ok_def split: option.splits)
  show ?thesis
  proof (cases "k = b")
    case True
    with False buf assms(2) show ?thesis
      by (auto simp: block_ok_def runtime_defs split: option.splits)
  next
    case ne: False
    with False buf assms(1) show ?thesis
      by (auto simp: block_ok_def runtime_defs split: option.splits)
  qed
qed

lemma counters_step:
  assumes "next_buffer r = allocated r" "next_array r = allocated r"
  shows "next_buffer (host_step e r) = allocated (host_step e r)
     \<and> next_array (host_step e r) = allocated (host_step e r)"
  using assms
  by (cases e) (auto simp: runtime_defs split: option.splits prod.splits if_splits)

lemma consistent_step:
  assumes "consistent r"
  shows "consistent (host_step e r)"
proof -
  from assms have c: "next_buffer r = allocated r" "next_array r = allocated r"
    and ok: "block_ok r k" for k
    by (simp_all add: consistent_def)
  have "block_ok (host_step e r) k" for k
  proof (cases e)
    case (Convert nbytes)
    then show ?thesis using block_ok_Convert [OF c ok ok] by blast
  next
    case (CopyArray a)
    then show ?thesis using block_ok_CopyArray [OF ok ok] by blast
  next
    case (DropArray a)
    then show ?thesis using block_ok_DropArray [OF ok ok] by blast
  next
    case (TakeBase a)
    then show ?thesis using block_ok_TakeBase [OF ok ok] by blast
  next
    case (CopyBuffer b)
    then show ?thesis using block_ok_CopyBuffer [OF ok ok] by blast
  next
    case (DropBuffer b)
    then show ?thesis using block_ok_DropBuffer [OF ok ok] by blast
  qed
  with counters_step [OF c, of e] show ?thesis
    by (simp add: consistent_def)
qed

lemma consistent_fold: "consistent r \<Longrightarrow> consistent (fold host_step events r)"
  by (induction events arbitrary: r) (simp_all add: consistent_step del: host_step.simps)

lemma consistent_run: "consistent (host_run events)"
  unfolding host_run_def by (rule consistent_fold [OF consistent_initial])

section \<open>The claims\<close>

subsection \<open>C1: scatter followed by gather\<close>

text \<open>
  Claim C1 says that scattering a logical array into a buffer with a given shape and strides
  and gathering it back with the same shape and strides gives the original array, for every
  shape and every strides.  This holds when the array has the extents that the copy covers
  and no two positions of the shape share a flat index (modulo \<open>2\<^sup>3\<^sup>2\<close>): then the scatter is
  defined, and the gather from the store it leaves, into any array of the same static sizes,
  returns the original array, element for element.  The element type is arbitrary and the
  depth is the length of the shape, which covers the depths 1 to 4.
\<close>

theorem scatter_gather_roundtrip:
  assumes "shape \<noteq> []" and "length strides = length shape"
    and "has_shape (copied_extents shape) a"
    and "distinct (map (flat_index offset strides) (positions (copied_extents shape)))"
    and "has_static_sizes (map unat (butlast shape)) result"
  shows "\<exists>target'. copy_array_scatter 0 offset shape strides a target = Some target'
           \<and> copy_array_gather 0 offset shape strides target' result = Some a"
proof -
  have lt: "0 < length shape"
    using assms(1) by simp
  have inj: "inj_on (flat_index offset (drop 0 strides))
               (set (positions (copied_extents (drop 0 shape))))"
    using assms(4) by (simp add: distinct_map)
  from scatter_spec [OF lt assms(2) _ inj, of a target] assms(3)
  obtain target' where
    s: "copy_array_scatter 0 offset shape strides a target = Some target'"
    and se: "\<forall>is\<in>set (positions (copied_extents shape)).
               element is a = Some (view_mem target' (flat_index offset strides is))"
    by auto
  from gather_spec [OF lt assms(2), of result offset target'] assms(5)
  obtain g where
    g: "copy_array_gather 0 offset shape strides target' result = Some g"
    and gs: "has_shape (copied_extents shape) g"
    and ge: "\<forall>is\<in>set (positions (copied_extents shape)).
               element is g = Some (view_mem target' (flat_index offset strides is))"
    by auto
  have "g = a"
    using gs assms(3) se ge by (intro array_eqI [of "copied_extents shape"]) simp_all
  with s g show ?thesis by blast
qed

text \<open>
  An instance: a depth-2 array of shape (2,3) in a buffer with the strides (1,2).
\<close>

theorem scatter_gather_roundtrip_witness:
  "\<exists>target'.
     copy_array_scatter 0 0 [2, 3] [1, 2]
       (StaticArray [CUDAArray [10, 11, 12 :: nat], CUDAArray [20, 21, 22]])
       \<lparr>view_size = 6, view_mem = (\<lambda>k. 0)\<rparr> = Some target'
     \<and> copy_array_gather 0 0 [2, 3] [1, 2] target' (default_array [2])
         = Some (StaticArray [CUDAArray [10, 11, 12], CUDAArray [20, 21, 22]])"
proof -
  have ce: "copied_extents [2, 3] = [2, 3]"
    by (simp add: copied_extents_def)
  have h1: "has_shape (copied_extents [2, 3])
              (StaticArray [CUDAArray [10, 11, 12 :: nat], CUDAArray [20, 21, 22]])"
    by (simp add: ce)
  have h2: "distinct (map (flat_index 0 [1, 2]) (positions (copied_extents [2, 3])))"
    by (simp add: ce positions_def flat_index_def flat_offset_def upt_rec)
  have h3: "has_static_sizes (map unat (butlast [2, 3 :: size_t])) (default_array [2] :: nat enoki_array)"
    by code_simp
  show ?thesis
    by (rule scatter_gather_roundtrip [OF _ _ h1 h2 h3]) simp_all
qed

text \<open>
  Without the condition on the strides the claim fails.  With shape (2) and stride 0 both
  elements of \<open>[1, 2]\<close> are written to offset 0, and the gather reads the same cell twice:
  whichever write stays, the result is not \<open>[1, 2]\<close>.
\<close>

theorem scatter_gather_roundtrip_counterexample:
  "(case copy_array_scatter 0 0 [2] [0] (CUDAArray [1, 2 :: nat])
           \<lparr>view_size = 2, view_mem = (\<lambda>k. 0)\<rparr> of
      None \<Rightarrow> None
    | Some target' \<Rightarrow> copy_array_gather 0 0 [2] [0] target' (CUDAArray []))
   \<noteq> Some (CUDAArray [1, 2])"
  by code_simp

subsection \<open>C2: the order of the dimensions\<close>

text \<open>
  Claim C2, as far as the code bears it out: in both directions the copy runs with the
  reversed shape and strides of the tensor.  Index 0 of the arrays passed to the recursion
  is the outermost logical dimension and the last dimension of the tensor; the last index
  is the innermost logical dimension and the first dimension of the tensor.  The copy
  covers the positions of the reversed shape with its innermost extent cut to 32 bits, and
  the cell of the logical position \<open>is\<close> is the flat index of the reversed position \<open>rev is\<close>
  under the tensor's own strides, taken modulo \<open>2\<^sup>3\<^sup>2\<close>.
  \<^item> \<^verbatim>\<open>torch_to_enoki\<close>, for a tensor whose type name contains \<open>Tensor\<close>, whose dtype is the
    dtype of the scalar type, whose rank is the depth of the array type, which has one
    stride for each dimension, and whose reversed extents but the last are the static sizes
    of the array type: the conversion returns an array that has the reversed extents with
    the innermost one cut to 32 bits, and its element at each position \<open>is\<close> of these extents
    is the cell of the tensor at the flat index of \<open>rev is\<close> modulo \<open>2\<^sup>3\<^sup>2\<close>.
  \<^item> \<^verbatim>\<open>enoki_to_torch\<close>, for a scalar type with a dtype, an array that has the extents of
    its own shape with the innermost one cut to 32 bits, and an allocated tensor with one
    stride for each dimension under whose reversed strides no two positions of these
    extents share a flat index modulo \<open>2\<^sup>3\<^sup>2\<close>: the conversion returns the allocated tensor
    with a new content, in which the cell at the flat index of \<open>rev is\<close> modulo \<open>2\<^sup>3\<^sup>2\<close> holds
    the element at \<open>is\<close>, for each position \<open>is\<close> of these extents.
\<close>

theorem reversed_layout:
  "(string_find (tensor_type_name src) ''Tensor'' \<noteq> None
      \<and> torch_dtype Scalar_t = Inr (tensor_dtype src)
      \<and> length (tensor_shape src) = Suc (length sizes)
      \<and> length (tensor_stride src) = length (tensor_shape src)
      \<and> sizes = map unat (butlast (rev (tensor_shape src)))
    \<longrightarrow> (\<exists>a. torch_to_enoki Scalar_t sizes src = Inr a
          \<and> has_shape (copied_extents (rev (tensor_shape src))) a
          \<and> (\<forall>is\<in>set (positions (copied_extents (rev (tensor_shape src)))).
                element is a
                  = Some (tensor_data src (flat_index 0 (tensor_stride src) (rev is))))))
   \<and> (torch_dtype Scalar_t = Inr dt
      \<and> torch_empty (rev (enoki_shape b)) dt = T
      \<and> length (tensor_stride T) = length (enoki_shape b)
      \<and> has_shape (copied_extents (enoki_shape b)) b
      \<and> distinct (map (flat_index 0 (rev (tensor_stride T)))
                    (positions (copied_extents (enoki_shape b))))
    \<longrightarrow> (\<exists>m. enoki_to_torch torch_empty Scalar_t b eval = Inr (T\<lparr>tensor_data := m\<rparr>)
          \<and> (\<forall>is\<in>set (positions (copied_extents (enoki_shape b))).
                element is b = Some (m (flat_index 0 (tensor_stride T) (rev is))))))"
  using torch_to_enoki_success [of src Scalar_t sizes]
    enoki_to_torch_success [of Scalar_t dt torch_empty b T eval]
  by blast

text \<open>
  The array of shape (2,3) and the contiguous tensor of shape (3,2), strides (2,1): the
  element at the logical position (0,2) is the cell at offset 4, the position (2,0) of the
  tensor, in both directions.
\<close>

theorem reversed_layout_witness:
  "(\<exists>a. torch_to_enoki Float [2]
           \<lparr>tensor_type_name = ''Tensor'', tensor_shape = [3, 2], tensor_dtype = ''float32'',
            tensor_stride = [2, 1], tensor_data = (\<lambda>k. k)\<rparr> = Inr a
        \<and> element [0, 2] a = Some 4)
   \<and> (\<exists>m. enoki_to_torch
           (\<lambda>shape dtype. \<lparr>tensor_type_name = ''Tensor'', tensor_shape = shape,
              tensor_dtype = dtype, tensor_stride = [2, 1], tensor_data = (\<lambda>k. 0)\<rparr>)
           Float (StaticArray [CUDAArray [10, 11, 12 :: nat], CUDAArray [20, 21, 22]]) True
         = Inr \<lparr>tensor_type_name = ''Tensor'', tensor_shape = [3, 2], tensor_dtype = ''float32'',
                tensor_stride = [2, 1], tensor_data = m\<rparr>
        \<and> m 4 = 12)"
proof -
  let ?src = "\<lparr>tensor_type_name = ''Tensor'', tensor_shape = [3, 2 :: size_t],
      tensor_dtype = ''float32'', tensor_stride = [2, 1 :: size_t], tensor_data = (\<lambda>k. k :: nat)\<rparr>"
  let ?E = "\<lambda>shape dtype. \<lparr>tensor_type_name = ''Tensor'', tensor_shape = shape,
      tensor_dtype = dtype, tensor_stride = [2, 1 :: size_t], tensor_data = (\<lambda>k. 0 :: nat)\<rparr>"
  let ?B = "StaticArray [CUDAArray [10, 11, 12 :: nat], CUDAArray [20, 21, 22]]"
  let ?T = "\<lparr>tensor_type_name = ''Tensor'', tensor_shape = [3, 2 :: size_t],
      tensor_dtype = ''float32'', tensor_stride = [2, 1 :: size_t], tensor_data = (\<lambda>k. 0 :: nat)\<rparr>"
  note r = reversed_layout [where src = ?src and Scalar_t = Float and sizes = "[2]"
      and dt = "''float32''" and torch_empty = ?E and b = ?B and T = ?T and eval = True]
  have ce: "copied_extents [2, 3] = [2, 3]"
    by (simp add: copied_extents_def)
  have pos: "[0, 2] \<in> set (positions [2, 3])"
    by (simp add: positions_def upt_rec)
  have idx: "flat_index 0 [2, 1] (rev [0, 2]) = 4"
    by (simp add: flat_index_def flat_offset_def)
  have es: "enoki_shape ?B = [2, 3]"
    by simp
  have dt: "torch_dtype Float = Inr ''float32''"
    by (simp add: torch_dtype_def)
  have dist: "distinct (map (flat_index 0 [1, 2]) (positions [2, 3]))"
    by (simp add: positions_def flat_index_def flat_offset_def upt_rec)
  have "\<exists>a. torch_to_enoki Float [2] ?src = Inr a
          \<and> has_shape (copied_extents (rev (tensor_shape ?src))) a
          \<and> (\<forall>is\<in>set (positions (copied_extents (rev (tensor_shape ?src)))).
                element is a
                  = Some (tensor_data ?src (flat_index 0 (tensor_stride ?src) (rev is))))"
    using r dt by simp
  then have one: "\<exists>a. torch_to_enoki Float [2] ?src = Inr a \<and> element [0, 2] a = Some 4"
    using pos idx by (auto simp: ce)
  have "\<exists>m. enoki_to_torch ?E Float ?B True = Inr (?T\<lparr>tensor_data := m\<rparr>)
          \<and> (\<forall>is\<in>set (positions (copied_extents (enoki_shape ?B))).
                element is ?B = Some (m (flat_index 0 (tensor_stride ?T) (rev is))))"
    using r dt dist by (simp add: ce)
  then have two: "\<exists>m. enoki_to_torch ?E Float ?B True = Inr (?T\<lparr>tensor_data := m\<rparr>) \<and> m 4 = 12"
    using pos idx by (auto simp: ce)
  from one two show ?thesis by simp
qed

text \<open>
  The claim also says that the last index of the arrays passed to the recursion is the
  fastest-varying dimension of the external buffer.  For a contiguous buffer it is the
  slowest one.  Gathering from the contiguous tensor of shape (3,2) whose cell \<open>k\<close> holds \<open>k\<close>,
  a step along the last logical index moves two cells and a step along index 0 moves one;
  the row-major buffer that \<^verbatim>\<open>enoki_to_numpy\<close> builds for the array
  \<open>[[10, 11, 12], [20, 21, 22]]\<close>, byte strides (8,4), holds 10 and 20 next to each other.
\<close>

theorem reversed_layout_counterexample:
  "torch_to_enoki Float [2]
      \<lparr>tensor_type_name = ''Tensor'', tensor_shape = [3, 2], tensor_dtype = ''float32'',
       tensor_stride = [2, 1], tensor_data = (\<lambda>k. k)\<rparr>
     = Inr (StaticArray [CUDAArray [0, 2, 4], CUDAArray [1, 3, 5]])
   \<and> (case enoki_to_numpy (\<lambda>k. 0) Float
            (StaticArray [CUDAArray [10, 11, 12 :: nat], CUDAArray [20, 21, 22]]) True of
        Inl e \<Rightarrow> None
      | Inr r \<Rightarrow> Some (ndarray_shape r, ndarray_strides r, map (ndarray_data r) [0..<6]))
     = Some ([3, 2], [8, 4], [10, 20, 11, 21, 12, 22])"
  by code_simp

subsection \<open>C3: the recursion over the dimensions\<close>

text \<open>
  Claim C3, with the flat indices of the last dimension taken modulo \<open>2\<^sup>3\<^sup>2\<close> and its extent
  cut to 32 bits.
  \<^item> In the last dimension the gather returns the depth-1 array of the cells at
    \<open>(offset + i * stride[d]) mod 2\<^sup>3\<^sup>2\<close>, for \<open>i\<close> below the extent; the scatter writes the
    elements of a depth-1 source of that extent to these cells, in this order, and changes
    nothing else.
  \<^item> In any other dimension, with at least \<open>shape[d]\<close> components at hand: if for every
    \<open>i < shape[d]\<close> the gather into component \<open>i\<close> in dimension \<open>d + 1\<close> at offset
    \<open>offset + i * stride[d]\<close> returns \<open>gs ! i\<close>, the gather returns the array whose first
    \<open>shape[d]\<close> components are \<open>gs\<close>; if the scatter of component \<open>i\<close> at that offset takes the
    store \<open>ms i\<close> to \<open>ms (i + 1)\<close>, the scatter takes \<open>ms 0\<close> to \<open>ms shape[d]\<close>.
\<close>

theorem copy_recursion_contract:
  "(Index + 1 = length shape \<longrightarrow>
      copy_array_gather Index offset shape strides source (CUDAArray ys) =
        Some (CUDAArray
          (map (\<lambda>i. view_mem source ((unat offset + i * unat (strides ! Index)) mod 2 ^ 32))
             [0..<unat (shape ! Index) mod 2 ^ 32]))
      \<and> (length xs = unat (shape ! Index) mod 2 ^ 32 \<longrightarrow>
          copy_array_scatter Index offset shape strides (CUDAArray xs) target =
            Some (target\<lparr>view_mem :=
              fold (\<lambda>(k, v) m. m(k := v))
                (zip (map (\<lambda>i. (unat offset + i * unat (strides ! Index)) mod 2 ^ 32)
                        [0..<unat (shape ! Index) mod 2 ^ 32]) xs)
                (view_mem target)\<rparr>)))
   \<and> (Index + 1 < length shape \<and> unat (shape ! Index) \<le> length ts
        \<and> length gs = unat (shape ! Index)
        \<and> (\<forall>i<unat (shape ! Index).
              copy_array_gather (Index + 1) (offset + of_nat i * strides ! Index) shape strides
                source (ts ! i) = Some (gs ! i))
      \<longrightarrow> copy_array_gather Index offset shape strides source (StaticArray ts)
            = Some (StaticArray (gs @ drop (unat (shape ! Index)) ts)))
   \<and> (Index + 1 < length shape \<and> unat (shape ! Index) \<le> length cs
        \<and> ms 0 = target
        \<and> (\<forall>i<unat (shape ! Index).
              copy_array_scatter (Index + 1) (offset + of_nat i * strides ! Index) shape strides
                (cs ! i) (ms i) = Some (ms (Suc i)))
      \<longrightarrow> copy_array_scatter Index offset shape strides (StaticArray cs) target
            = Some (ms (unat (shape ! Index))))"
  using gather_last_mem [where Index = Index and shape = shape and offset = offset
      and strides = strides and source = source and ys = ys]
    scatter_last_mem [where Index = Index and shape = shape and offset = offset
      and strides = strides and xs = xs and target = target]
    gather_components [where Index = Index and shape = shape and ts = ts and gs = gs
      and offset = offset and strides = strides and source = source]
    scatter_components [where Index = Index and shape = shape and xs = cs and ms = ms
      and target = target and offset = offset and strides = strides]
  by blast

text \<open>
  An instance in each dimension of a copy with shape (2,3) and strides (1,2).
\<close>

theorem copy_recursion_contract_witness:
  "copy_array_gather 1 5 [2, 3] [1, 2] \<lparr>view_size = 16, view_mem = (\<lambda>k. 100 + k)\<rparr> (CUDAArray [])
     = Some (CUDAArray [105, 107, 109])
   \<and> copy_array_gather 0 4 [2, 3] [1, 2] \<lparr>view_size = 16, view_mem = (\<lambda>k. 100 + k)\<rparr>
       (StaticArray [CUDAArray [], CUDAArray []])
     = Some (StaticArray [CUDAArray [104, 106, 108], CUDAArray [105, 107, 109]])
   \<and> map_option (\<lambda>t. map (view_mem t) [0..<8])
       (copy_array_scatter 1 1 [2, 3] [1, 2] (CUDAArray [7, 8, 9 :: nat])
          \<lparr>view_size = 8, view_mem = (\<lambda>k. 0)\<rparr>)
     = Some [0, 7, 0, 8, 0, 9, 0, 0]"
proof -
  let ?m = "\<lparr>view_size = 16 :: size_t, view_mem = (\<lambda>k. 100 + k :: nat)\<rparr>"
  let ?z = "\<lparr>view_size = 8 :: size_t, view_mem = (\<lambda>k. 0 :: nat)\<rparr>"
  let ?ts = "[CUDAArray [], CUDAArray []] :: nat enoki_array list"
  let ?gs = "[CUDAArray [104, 106, 108], CUDAArray [105, 107, 109]] :: nat enoki_array list"
  note c = copy_recursion_contract [where shape = "[2, 3]" and strides = "[1, 2]" and source = ?m
      and ys = "[]" and cs = "[]" and ms = "\<lambda>i. ?m"]
  have up: "[0..<3] = [0, 1, 2]"
    by (simp add: upt_rec)
  have up8: "[0..<8] = [0, 1, 2, 3, 4, 5, 6, 7]"
    by (simp add: upt_rec)
  have a: "copy_array_gather 1 5 [2, 3] [1, 2] ?m (CUDAArray []) = Some (CUDAArray [105, 107, 109])"
    and b: "copy_array_gather 1 4 [2, 3] [1, 2] ?m (CUDAArray []) = Some (CUDAArray [104, 106, 108])"
    using c [where Index = 1 and offset = 5 and xs = "[]" and target = ?m]
      c [where Index = 1 and offset = 4 and xs = "[]" and target = ?m]
    by (simp_all add: up)
  have s: "map_option (\<lambda>t. map (view_mem t) [0..<8])
       (copy_array_scatter 1 1 [2, 3] [1, 2] (CUDAArray [7, 8, 9 :: nat]) ?z)
     = Some [0, 7, 0, 8, 0, 9, 0, 0]"
    using c [where Index = 1 and offset = 1 and xs = "[7, 8, 9]" and target = ?z]
    by (simp add: up up8)
  have "\<forall>i<unat ([2, 3 :: size_t] ! 0).
          copy_array_gather (0 + 1) (4 + of_nat i * [1, 2] ! 0) [2, 3] [1, 2] ?m (?ts ! i)
            = Some (?gs ! i)"
  proof (intro allI impI)
    fix i :: nat
    assume "i < unat ([2, 3 :: size_t] ! 0)"
    then have "i = 0 \<or> i = 1"
      by simp arith
    then show "copy_array_gather (0 + 1) (4 + of_nat i * [1, 2] ! 0) [2, 3] [1, 2] ?m (?ts ! i)
            = Some (?gs ! i)"
      using a b by auto
  qed
  with c [where Index = 0 and offset = 4 and ts = ?ts and gs = ?gs and xs = "[]" and target = ?m]
  have "copy_array_gather 0 4 [2, 3] [1, 2] ?m (StaticArray ?ts) = Some (StaticArray ?gs)"
    by simp
  with a s show ?thesis by simp
qed

text \<open>
  The indices are not exactly \<open>offset + i * stride[d]\<close>: with offset \<open>2\<^sup>3\<^sup>2\<close>, extent 1 and
  stride 1 the gather reads cell 0, which holds 7, and not the cell at the flat offset
  \<open>2\<^sup>3\<^sup>2\<close>, which holds 9.
\<close>

theorem copy_recursion_contract_counterexample:
  "copy_array_gather 0 4294967296 [1] [1]
     \<lparr>view_size = 4294967297, view_mem = (\<lambda>k. if k = 0 then 7 else (9 :: nat))\<rparr> (CUDAArray [])
   \<noteq> Some (CUDAArray
        (map (\<lambda>i. view_mem
                 \<lparr>view_size = 4294967297, view_mem = (\<lambda>k. if k = 0 then 7 else (9 :: nat))\<rparr>
                 (flat_offset 4294967296 [1] [i]))
           [0..<unat (1 :: size_t)]))"
proof -
  have "copy_array_gather 0 4294967296 [1] [1]
     \<lparr>view_size = 4294967297, view_mem = (\<lambda>k. if k = 0 then 7 else (9 :: nat))\<rparr> (CUDAArray [])
     = Some (CUDAArray [7])"
    by code_simp
  moreover have "map (\<lambda>i. view_mem
                 \<lparr>view_size = 4294967297, view_mem = (\<lambda>k. if k = 0 then 7 else (9 :: nat))\<rparr>
                 (flat_offset 4294967296 [1] [i]))
           [0..<unat (1 :: size_t)]
     = [9 :: nat]"
    by (simp add: flat_offset_def)
  ultimately show ?thesis by simp
qed

subsection \<open>C4: rejected tensors\<close>




subsection \<open>C5: what a scatter writes\<close>

text \<open>
  Claim C5, with the flat indices taken modulo \<open>2\<^sup>3\<^sup>2\<close>: a scatter that returns leaves the
  size of the view as it was, and leaves every cell unchanged that is not at
  \<open>(offset + \<Sum>\<^sub>d i\<^sub>d * stride\<^sub>d) mod 2\<^sup>3\<^sup>2\<close> for a position \<open>i\<close> of the shape.
\<close>

theorem scatter_frame_mod:
  assumes "Index < length shape" and "length strides = length shape"
    and "copy_array_scatter Index offset shape strides source target = Some target'"
  shows "view_size target' = view_size target \<and>
     (\<forall>k. k \<notin> flat_index offset (drop Index strides) ` set (positions (map unat (drop Index shape)))
        \<longrightarrow> view_mem target' k = view_mem target k)"
proof -
  have "drop Index shape \<noteq> []"
    using assms(1) by simp
  then have "set (positions (copied_extents (drop Index shape)))
      \<subseteq> set (positions (map unat (drop Index shape)))"
    by (rule positions_copied_subset)
  then have "flat_index offset (drop Index strides) ` set (positions (copied_extents (drop Index shape)))
      \<subseteq> flat_index offset (drop Index strides) ` set (positions (map unat (drop Index shape)))"
    by (rule image_mono)
  with scatter_frame [OF assms] show ?thesis
    by blast
qed

text \<open>
  A scatter with shape (2,2), strides (1,3) and offset 1 into a store of sevens.
\<close>

theorem scatter_frame_mod_witness:
  "map_option (\<lambda>t. (view_size t, map (view_mem t) [0..<8]))
     (copy_array_scatter 0 1 [2, 2] [1, 3]
        (StaticArray [CUDAArray [10, 11 :: nat], CUDAArray [20, 21]])
        \<lparr>view_size = 8, view_mem = (\<lambda>k. 7)\<rparr>)
   = Some (8, [7, 10, 20, 7, 11, 21, 7, 7])
   \<and> 0 \<notin> flat_index 1 (drop 0 [1, 3]) ` set (positions (map unat (drop 0 [2, 2 :: size_t])))
   \<and> (\<exists>t. copy_array_scatter 0 1 [2, 2] [1, 3]
        (StaticArray [CUDAArray [10, 11 :: nat], CUDAArray [20, 21]])
        \<lparr>view_size = 8, view_mem = (\<lambda>k. 7)\<rparr> = Some t \<and> view_size t = 8 \<and> view_mem t 0 = 7)"
proof -
  let ?src = "StaticArray [CUDAArray [10, 11 :: nat], CUDAArray [20, 21]]"
  let ?tgt = "\<lparr>view_size = 8, view_mem = (\<lambda>k. 7 :: nat)\<rparr>"
  have run: "map_option (\<lambda>t. (view_size t, map (view_mem t) [0..<8]))
     (copy_array_scatter 0 1 [2, 2] [1, 3] ?src ?tgt) = Some (8, [7, 10, 20, 7, 11, 21, 7, 7])"
    by code_simp
  then obtain t where t: "copy_array_scatter 0 1 [2, 2] [1, 3] ?src ?tgt = Some t"
    by auto
  have notin: "0 \<notin> flat_index 1 (drop 0 [1, 3]) ` set (positions (map unat (drop 0 [2, 2 :: size_t])))"
    by (simp add: positions_def flat_index_def flat_offset_def upt_rec)
  from scatter_frame_mod [OF _ _ t] notin have "view_size t = 8 \<and> view_mem t 0 = 7"
    by simp
  with run t notin show ?thesis by blast
qed

text \<open>
  Without the reduction modulo \<open>2\<^sup>3\<^sup>2\<close> the claim fails: with shape (2) and stride \<open>2\<^sup>3\<^sup>2 + 1\<close>
  the flat offsets are 0 and \<open>2\<^sup>3\<^sup>2 + 1\<close>, and the scatter writes cell 1.
\<close>

theorem scatter_frame_mod_counterexample:
  "1 \<notin> flat_offset 0 [4294967297] ` set (positions (map unat [2 :: size_t]))
   \<and> map_option (\<lambda>t. view_mem t 1)
        (copy_array_scatter 0 0 [2] [4294967297] (CUDAArray [5, 6 :: nat])
           \<lparr>view_size = 2, view_mem = (\<lambda>k. 0)\<rparr>) = Some 6"
proof
  show "1 \<notin> flat_offset 0 [4294967297] ` set (positions (map unat [2 :: size_t]))"
    by (simp add: positions_def flat_offset_def upt_rec)
  show "map_option (\<lambda>t. view_mem t 1)
        (copy_array_scatter 0 0 [2] [4294967297] (CUDAArray [5, 6 :: nat])
           \<lparr>view_size = 2, view_mem = (\<lambda>k. 0)\<rparr>) = Some 6"
    by code_simp
qed

subsection \<open>C6: the lifetime of a managed buffer\<close>

text \<open>
  Claim C6: after any sequence of conversions and of reference handling by the host
  program, a \<^verbatim>\<open>CUDAManagedBuffer\<close> allocated by \<^verbatim>\<open>enoki_to_numpy\<close> is valid as long as the host
  holds a reference to the returned array or to its base object: the array and the wrapper
  exist and the block has not been released.  No block is released twice, no block is
  released that was never handed out, and a block is released exactly once as soon as the
  host holds no reference to its wrapper or to the array based on it.
\<close>

theorem managed_buffer_lifetime:
  "(\<forall>a. 0 < array_refs (host_run events) a \<longrightarrow>
       (\<exists>n p b. arrays (host_run events) a = Some (n, p, b)
          \<and> (\<exists>m. buffers (host_run events) b = Some (m, p))
          \<and> p < allocated (host_run events) \<and> frees (host_run events) p = 0))
   \<and> (\<forall>b. 0 < buffer_refs (host_run events) b \<longrightarrow>
       (\<exists>n p. buffers (host_run events) b = Some (n, p)
          \<and> p < allocated (host_run events) \<and> frees (host_run events) p = 0))
   \<and> (\<forall>p. frees (host_run events) p \<le> 1)
   \<and> (\<forall>p. allocated (host_run events) \<le> p \<longrightarrow> frees (host_run events) p = 0)
   \<and> (\<forall>p<allocated (host_run events).
        (\<forall>b n. buffers (host_run events) b = Some (n, p) \<longrightarrow>
           buffer_refs (host_run events) b = 0
           \<and> (\<forall>a m. arrays (host_run events) a = Some (m, p, b) \<longrightarrow>
                 array_refs (host_run events) a = 0))
        \<longrightarrow> frees (host_run events) p = 1)"
proof -
  let ?r = "host_run events"
  have ok: "block_ok ?r k" for k
    using consistent_run [of events] by (simp add: consistent_def)
  have 1: "\<exists>n p b. arrays ?r a = Some (n, p, b) \<and> (\<exists>m. buffers ?r b = Some (m, p))
          \<and> p < allocated ?r \<and> frees ?r p = 0" if "0 < array_refs ?r a" for a
    using ok [of a] that by (auto simp: block_ok_def split: option.splits)
  have 2: "\<exists>n p. buffers ?r b = Some (n, p) \<and> p < allocated ?r \<and> frees ?r p = 0"
    if "0 < buffer_refs ?r b" for b
    using ok [of b] that by (auto simp: block_ok_def split: option.splits)
  have 3: "frees ?r p \<le> 1" for p
    using ok [of p] by (auto simp: block_ok_def split: option.splits if_splits)
  have 4: "frees ?r p = 0" if "allocated ?r \<le> p" for p
    using ok [of p] that by (auto simp: block_ok_def split: option.splits if_splits)
  have 5: "frees ?r p = 1"
    if "p < allocated ?r"
      "\<forall>b n. buffers ?r b = Some (n, p) \<longrightarrow>
           buffer_refs ?r b = 0 \<and> (\<forall>a m. arrays ?r a = Some (m, p, b) \<longrightarrow> array_refs ?r a = 0)"
    for p
  proof (cases "buffers ?r p")
    case None
    with ok [of p] that(1) show ?thesis
      by (simp add: block_ok_def)
  next
    case (Some np)
    obtain n q where np: "np = (n, q)" by (cases np)
    from ok [of p] Some np have q: "q = p" and n: "0 < n"
      "n = buffer_refs ?r p + (if arrays ?r p = None then 0 else 1)"
      by (auto simp: block_ok_def)
    from that(2) Some np q have b0: "buffer_refs ?r p = 0"
      and a0: "\<forall>a m. arrays ?r a = Some (m, p, p) \<longrightarrow> array_refs ?r a = 0"
      by auto
    from n b0 obtain m q' b' where arr: "arrays ?r p = Some (m, q', b')"
      by (cases "arrays ?r p") auto
    with ok [of p] have "q' = p" "b' = p" "m = array_refs ?r p" "0 < m"
      by (simp_all add: block_ok_def)
    with arr a0 show ?thesis by auto
  qed
  from 1 2 3 4 5 show ?thesis by blast
qed

text \<open>
  A conversion whose array is dropped while its base is still held, then the base is
  dropped, then a second conversion.
\<close>

theorem managed_buffer_lifetime_witness:
  "0 < buffer_refs (host_run [Convert 24, TakeBase 0, DropArray 0]) 0
   \<and> array_refs (host_run [Convert 24, TakeBase 0, DropArray 0]) 0 = 0
   \<and> frees (host_run [Convert 24, TakeBase 0, DropArray 0]) 0 = 0
   \<and> buffer_refs (host_run [Convert 24, TakeBase 0, DropArray 0, DropBuffer 0, Convert 8]) 0 = 0
   \<and> frees (host_run [Convert 24, TakeBase 0, DropArray 0, DropBuffer 0, Convert 8]) 0 = 1
   \<and> 0 < array_refs (host_run [Convert 24, TakeBase 0, DropArray 0, DropBuffer 0, Convert 8]) 1
   \<and> frees (host_run [Convert 24, TakeBase 0, DropArray 0, DropBuffer 0, Convert 8]) 1 = 0"
proof -
  let ?r = "host_run [Convert 24, TakeBase 0, DropArray 0]"
  let ?s = "host_run [Convert 24, TakeBase 0, DropArray 0, DropBuffer 0, Convert 8]"
  have a: "0 < buffer_refs ?r 0" "array_refs ?r 0 = 0" "buffers ?r 0 = Some (1, 0)"
    by code_simp+
  have b: "buffer_refs ?s 0 = 0" "frees ?s 0 = 1" "0 < array_refs ?s 1"
    "arrays ?s 1 = Some (1, 1, 1)"
    by code_simp+
  have "\<exists>n p. buffers ?r 0 = Some (n, p) \<and> p < allocated ?r \<and> frees ?r p = 0"
    using managed_buffer_lifetime [of "[Convert 24, TakeBase 0, DropArray 0]"] a(1) by blast
  with a(3) have 1: "frees ?r 0 = 0"
    by auto
  have "\<exists>n p b. arrays ?s 1 = Some (n, p, b) \<and> (\<exists>m. buffers ?s b = Some (m, p))
          \<and> p < allocated ?s \<and> frees ?s p = 0"
    using managed_buffer_lifetime [of "[Convert 24, TakeBase 0, DropArray 0, DropBuffer 0, Convert 8]"]
      b(3) by blast
  with b(4) have 2: "frees ?s 1 = 0"
    by auto
  from a b 1 2 show ?thesis by simp
qed

subsection \<open>C7: element access out of range\<close>

text \<open>
  Claim C7: for every array and every index at or past its size, \<^verbatim>\<open>__getitem__\<close> raises the
  index error and returns no element.  An index below the size returns the component at
  the index, and no call reads a component that does not exist.
\<close>

theorem getitem_out_of_range:
  "(array_size a \<le> index \<longrightarrow> getitem a index = Inl index_error)
   \<and> (index < array_size a \<longrightarrow> (\<exists>v. getitem a index = Inr v \<and> coeff_value a index = Some v))
   \<and> getitem a index \<noteq> Inl undefined_behaviour"
  by (cases a) (auto simp: getitem_def)

theorem getitem_out_of_range_witness:
  "getitem (CUDAArray [7, 8, 9 :: nat]) 3 = Inl index_error
   \<and> getitem (StaticArray [CUDAArray [7 :: nat], CUDAArray [8]]) 5 = Inl index_error
   \<and> getitem (CUDAArray [7, 8, 9 :: nat]) 2 = Inr (Scalar 9)"
  using getitem_out_of_range [of "CUDAArray [7, 8, 9 :: nat]" 3]
    getitem_out_of_range [of "StaticArray [CUDAArray [7 :: nat], CUDAArray [8]]" 5]
    getitem_out_of_range [of "CUDAArray [7, 8, 9 :: nat]" 2]
  by simp

subsection \<open>C8: scalar types without a dtype\<close>

text \<open>
  Claim C8: for every scalar type that is not half, float, double or an integral type of
  1, 2, 4 or 8 bytes, \<^verbatim>\<open>torch_dtype\<close> throws the runtime error with the message
  \<open>pytorch_dtype(): Unsupported type\<close> and returns no dtype.
\<close>

theorem torch_dtype_unsupported:
  assumes "Scalar_t \<noteq> Half" and "Scalar_t \<noteq> Float" and "Scalar_t \<noteq> Double"
    and "\<not> (is_integral Scalar_t \<and> sizeof Scalar_t \<in> {1, 2, 4, 8})"
  shows "torch_dtype Scalar_t = Inl (runtime_error ''pytorch_dtype(): Unsupported type'')"
  using assms by (cases Scalar_t) (auto simp: torch_dtype_def)

theorem torch_dtype_unsupported_witness:
  "torch_dtype (Integral True 16) = Inl (runtime_error ''pytorch_dtype(): Unsupported type'')
   \<and> torch_dtype (Other 8) = Inl (runtime_error ''pytorch_dtype(): Unsupported type'')"
  using torch_dtype_unsupported [of "Integral True 16"] torch_dtype_unsupported [of "Other 8"]
  by simp

subsection \<open>C9: 32-bit indices\<close>

text \<open>
  Claim C9: in the last dimension both copies run on the index array that the 32-bit
  multiply-add builds from the truncated extent, stride and offset.  Its entries are
  \<open>(offset + i * stride[last]) mod 2\<^sup>3\<^sup>2\<close> for \<open>i\<close> below \<open>shape[last] mod 2\<^sup>3\<^sup>2\<close>, and both copies
  return a result: an offset or stride at or above \<open>2\<^sup>3\<^sup>2\<close> wraps around and is not rejected.
\<close>

theorem innermost_index_32bit:
  assumes "Index + 1 = length shape"
    and "length xs = unat (shape ! Index) mod 2 ^ 32"
  shows "copy_array_gather Index offset shape strides source (CUDAArray ys) =
           Some (CUDAArray (map (\<lambda>k. view_mem source (unat k))
              (fmadd (arange (ucast (shape ! Index))) (ucast (strides ! Index)) (ucast offset))))
     \<and> copy_array_scatter Index offset shape strides (CUDAArray xs) target =
           Some (target\<lparr>view_mem :=
              fold (\<lambda>(k, v) m. m(unat k := v))
                (zip (fmadd (arange (ucast (shape ! Index))) (ucast (strides ! Index))
                        (ucast offset)) xs)
                (view_mem target)\<rparr>)
     \<and> map unat (fmadd (arange (ucast (shape ! Index))) (ucast (strides ! Index)) (ucast offset))
         = map (\<lambda>i. (unat offset + i * unat (strides ! Index)) mod 2 ^ 32)
             [0..<unat (shape ! Index) mod 2 ^ 32]"
  using assms
  by (simp add: copy_array_gather_last copy_array_scatter_last gather_def scatter_def
        length_index index_list flat_index_single)

text \<open>
  With offset \<open>2\<^sup>3\<^sup>2 + 1\<close> and stride \<open>2\<^sup>3\<^sup>2 + 3\<close> the indices are 1 and 4.
\<close>

theorem innermost_index_32bit_witness:
  "copy_array_gather 0 4294967297 [2] [4294967299] \<lparr>view_size = 8, view_mem = (\<lambda>k. k)\<rparr>
       (CUDAArray [])
     = Some (CUDAArray [1, 4])
   \<and> map_option (\<lambda>t. map (view_mem t) [0..<6])
       (copy_array_scatter 0 4294967297 [2] [4294967299] (CUDAArray [8, 9 :: nat])
          \<lparr>view_size = 8, view_mem = (\<lambda>k. 0)\<rparr>)
     = Some [0, 8, 0, 0, 9, 0]
   \<and> map unat (fmadd (arange (ucast ([2 :: size_t] ! 0))) (ucast ([4294967299 :: size_t] ! 0))
        (ucast (4294967297 :: size_t)))
     = [1, 4]"
proof -
  note w = innermost_index_32bit [where Index = 0 and shape = "[2]" and strides = "[4294967299]"
      and offset = 4294967297]
  have idx: "map unat (fmadd (arange (ucast ([2 :: size_t] ! 0))) (ucast ([4294967299 :: size_t] ! 0))
        (ucast (4294967297 :: size_t))) = [1, 4]"
    using w [where xs = "[8, 9 :: nat]" and source = "\<lparr>view_size = 8, view_mem = (\<lambda>k. k :: nat)\<rparr>"
        and ys = "[]" and target = "\<lparr>view_size = 8, view_mem = (\<lambda>k. k :: nat)\<rparr>"]
    by (simp add: upt_rec)
  have g: "copy_array_gather 0 4294967297 [2] [4294967299] \<lparr>view_size = 8, view_mem = (\<lambda>k. k)\<rparr>
       (CUDAArray []) = Some (CUDAArray [1, 4])"
    by code_simp
  have s: "map_option (\<lambda>t. map (view_mem t) [0..<6])
       (copy_array_scatter 0 4294967297 [2] [4294967299] (CUDAArray [8, 9 :: nat])
          \<lparr>view_size = 8, view_mem = (\<lambda>k. 0)\<rparr>) = Some [0, 8, 0, 0, 9, 0]"
    by code_simp
  from idx g s show ?thesis by simp
qed

subsection \<open>C10: dtypes of integral types\<close>



end
